theory Spec2Isabelle
  imports Main "HOL-Library.Word"
begin

unbundle bit_operations_syntax

section \<open>Bytes, memory and byte order\<close>

text \<open>
  \<^verbatim>\<open>dnsflow.c\<close> builds its output and reads its input through raw pointers. A region of
  memory is a total map from byte offsets to octets and a pointer into it is an offset.
  The map is deliberately unbounded: C does not check a store against the size of the
  allocation, so a store past the end of a buffer is visible in the model as a store at
  a large offset instead of being silently dropped.
\<close>

type_synonym byte = "8 word"
type_synonym memory = "nat \<Rightarrow> byte"

text \<open>\<^verbatim>\<open>memcpy(dst, src, n)\<close>, \<^verbatim>\<open>bzero(dst, n)\<close> and the store of a multi-byte field.\<close>

definition store_bytes :: "nat \<Rightarrow> byte list \<Rightarrow> memory \<Rightarrow> memory" where
  "store_bytes a bs m = (\<lambda>i. if a \<le> i \<and> i < a + length bs then bs ! (i - a) else m i)"

definition load_bytes :: "memory \<Rightarrow> nat \<Rightarrow> nat \<Rightarrow> byte list" where
  "load_bytes m a n = map m [a..<a + n]"

text \<open>
  The octets of a 16-bit and of a 32-bit value in network byte order, most significant
  first: what \<^verbatim>\<open>htons\<close> and \<^verbatim>\<open>htonl\<close> leave in memory, and what \<^verbatim>\<open>ntohs\<close> and \<^verbatim>\<open>ntohl\<close>
  read back.
\<close>

definition be16 :: "16 word \<Rightarrow> byte list" where
  "be16 w = [ucast (drop_bit 8 w), ucast w]"

definition be32 :: "32 word \<Rightarrow> byte list" where
  "be32 w = [ucast (drop_bit 24 w), ucast (drop_bit 16 w), ucast (drop_bit 8 w), ucast w]"

definition from_be16 :: "byte list \<Rightarrow> 16 word" where
  "from_be16 bs = push_bit 8 (ucast (bs ! 0)) OR ucast (bs ! 1)"

definition from_be32 :: "byte list \<Rightarrow> 32 word" where
  "from_be32 bs = push_bit 24 (ucast (bs ! 0)) OR push_bit 16 (ucast (bs ! 1))
     OR push_bit 8 (ucast (bs ! 2)) OR ucast (bs ! 3)"

text \<open>
  An \<^verbatim>\<open>in_addr_t\<close> is kept in network byte order. It is identified with the number its four
  octets denote most significant first, so that storing it writes \<open>be32\<close> of it and
  reading it from a packet is \<open>from_be32\<close>: the octets are the same on every host.
\<close>

type_synonym in_addr_t = "32 word"

section \<open>Wire format constants\<close>

abbreviation (input) DNSFLOW_MAX_PARSE :: nat where "DNSFLOW_MAX_PARSE \<equiv> 255"
abbreviation (input) DNSFLOW_PKT_MAX_SIZE :: nat where "DNSFLOW_PKT_MAX_SIZE \<equiv> 65535"
abbreviation (input) DNSFLOW_PKT_TARGET_SIZE :: nat where "DNSFLOW_PKT_TARGET_SIZE \<equiv> 1200"
abbreviation (input) DNSFLOW_VERSION :: byte where "DNSFLOW_VERSION \<equiv> 2"
abbreviation (input) DNSFLOW_FLAG_STATS :: "16 word" where "DNSFLOW_FLAG_STATS \<equiv> 1"
abbreviation (input) DNSFLOW_SETS_COUNT_MAX :: byte where "DNSFLOW_SETS_COUNT_MAX \<equiv> 255"
abbreviation (input) DNSFLOW_NAMES_COUNT_MAX :: nat where "DNSFLOW_NAMES_COUNT_MAX \<equiv> 255"
abbreviation (input) DNSFLOW_IPS_COUNT_MAX :: nat where "DNSFLOW_IPS_COUNT_MAX \<equiv> 255"
abbreviation (input) LDNS_MAX_DOMAINLEN :: nat where "LDNS_MAX_DOMAINLEN \<equiv> 255"

text \<open>\<^verbatim>\<open>sizeof(struct dnsflow_hdr)\<close>, \<^verbatim>\<open>sizeof(struct dnsflow_set_hdr)\<close>, \<^verbatim>\<open>sizeof(in_addr_t)\<close>.\<close>

abbreviation (input) sizeof_dnsflow_hdr :: nat where "sizeof_dnsflow_hdr \<equiv> 8"
abbreviation (input) sizeof_dnsflow_set_hdr :: nat where "sizeof_dnsflow_set_hdr \<equiv> 8"
abbreviation (input) sizeof_in_addr_t :: nat where "sizeof_in_addr_t \<equiv> 4"

text \<open>
  Field offsets. \<^verbatim>\<open>struct dnsflow_hdr\<close>: version 0, sets_count 1, flags 2, sequence_number 4.
  \<^verbatim>\<open>struct dnsflow_set_hdr\<close>: client_ip 0, names_count 4, ips_count 5, names_len 6.
\<close>

abbreviation (input) off_version :: nat where "off_version \<equiv> 0"
abbreviation (input) off_sets_count :: nat where "off_sets_count \<equiv> 1"
abbreviation (input) off_flags :: nat where "off_flags \<equiv> 2"
abbreviation (input) off_sequence_number :: nat where "off_sequence_number \<equiv> 4"
abbreviation (input) off_client_ip :: nat where "off_client_ip \<equiv> 0"
abbreviation (input) off_names_count :: nat where "off_names_count \<equiv> 4"
abbreviation (input) off_ips_count :: nat where "off_ips_count \<equiv> 5"
abbreviation (input) off_names_len :: nat where "off_names_len \<equiv> 6"

section \<open>Worker state\<close>

text \<open>
  The globals of one worker process. \<open>pkt\<close> is the memory that starts at
  \<^verbatim>\<open>&data_buf->db_pkt_hdr\<close> (\<^verbatim>\<open>pkt_start\<close> in \<^verbatim>\<open>dnsflow_pkt_build\<close>) and \<open>db_len\<close> is
  \<^verbatim>\<open>data_buf->db_len\<close>. \<open>sent\<close> lists the buffers handed to \<^verbatim>\<open>dnsflow_pkt_send\<close>, oldest
  first, and \<open>logged\<close> the messages given to \<^verbatim>\<open>_log\<close> (without the pid prefix).
  \<open>db_len\<close> is a \<^verbatim>\<open>uint32_t\<close>; it is a \<open>nat\<close> here, and \<open>db_len_bounded\<close> and
  \<open>set_end_bounded\<close> below show that it stays far from \<open>2 ^ 32\<close>.
\<close>

record dns_data_set =
  names :: "byte list list"
  ips :: "in_addr_t list"

record worker =
  sequence_number :: "32 word"
  db_len :: nat
  pkt :: memory
  last_send :: int
  stats_counter :: nat
  sent :: "byte list list"
  logged :: "string list"

text \<open>
  The state at the start of \<^verbatim>\<open>main\<close>'s event loop: \<^verbatim>\<open>sequence_number = 1\<close>, the buffer
  from \<^verbatim>\<open>calloc\<close>, \<^verbatim>\<open>last_send = 0\<close>.
\<close>

definition init_worker :: worker where
  "init_worker = \<lparr> sequence_number = 1, db_len = 0, pkt = (\<lambda>_. 0), last_send = 0,
     stats_counter = 0, sent = [], logged = [] \<rparr>"

abbreviation (input) log_line :: "string \<Rightarrow> worker \<Rightarrow> worker" where
  "log_line msg s \<equiv> s\<lparr>logged := logged s @ [msg]\<rparr>"

section \<open>Emitter and flush\<close>

text \<open>
  \<^verbatim>\<open>dnsflow_pkt_send\<close> writes the \<^verbatim>\<open>db_len\<close> bytes from \<^verbatim>\<open>&buf->db_pkt_hdr\<close> to the dump
  file and to every destination. The sockets and the dump file are outside the model:
  one call puts one buffer on \<open>sent\<close>.
\<close>

definition dnsflow_pkt_send :: "byte list \<Rightarrow> worker \<Rightarrow> worker" where
  "dnsflow_pkt_send buf s = s\<lparr>sent := sent s @ [buf]\<rparr>"

text \<open>\<^verbatim>\<open>dnsflow_pkt_send_data\<close>; \<open>now\<close> is what \<^verbatim>\<open>time(NULL)\<close> returns.\<close>

definition dnsflow_pkt_send_data :: "int \<Rightarrow> worker \<Rightarrow> worker" where
  "dnsflow_pkt_send_data now s =
     (if db_len s = 0 then s
      else let m = store_bytes off_sequence_number (be32 (sequence_number s)) (pkt s);
               s1 = s\<lparr>pkt := m, sequence_number := sequence_number s + 1\<rparr>;
               s2 = dnsflow_pkt_send (load_bytes m 0 (db_len s)) s1
           in s2\<lparr>db_len := 0, last_send := now\<rparr>)"

text \<open>\<^verbatim>\<open>dnsflow_push_cb\<close> with \<^verbatim>\<open>push_tv.tv_sec = 1\<close> (the jitter only changes \<^verbatim>\<open>tv_usec\<close>).\<close>

definition dnsflow_push_cb :: "int \<Rightarrow> worker \<Rightarrow> worker" where
  "dnsflow_push_cb now s = (if now - last_send s \<ge> 1 then dnsflow_pkt_send_data now s else s)"

section \<open>Batcher: \<^verbatim>\<open>dnsflow_pkt_build\<close>\<close>

text \<open>
  The loop that copies the names. \<^verbatim>\<open>pkt_end - pkt_cur\<close> is
  \<^verbatim>\<open>DNSFLOW_PKT_MAX_SIZE - 1 - db_len\<close> as a signed difference. When the guard fires the
  function returns at once; \<open>Inl\<close> carries the memory as it is left.
\<close>

fun copy_names :: "byte list list \<Rightarrow> nat \<Rightarrow> memory \<Rightarrow> memory + nat \<times> memory" where
  "copy_names [] len m = Inr (len, m)"
| "copy_names (n # ns) len m =
     (if int (length n) > int (DNSFLOW_PKT_MAX_SIZE - 1) - int len then Inl m
      else copy_names ns (len + length n) (store_bytes len n m))"

text \<open>\<^verbatim>\<open>while (data_buf->db_len % 4 != 0) pkt_start[data_buf->db_len++] = '\0';\<close>\<close>

function pad_names :: "nat \<Rightarrow> memory \<Rightarrow> nat \<times> memory" where
  "pad_names len m = (if len mod 4 \<noteq> 0 then pad_names (Suc len) (m(len := 0)) else (len, m))"
  by pat_completeness auto
termination
  by (relation "measure (\<lambda>(len, m). (4 - len mod 4) mod 4)") (auto simp: mod_Suc)

declare pad_names.simps [simp del]

text \<open>The loop that stores the addresses; it has no guard.\<close>

fun copy_ips :: "in_addr_t list \<Rightarrow> nat \<Rightarrow> memory \<Rightarrow> nat \<times> memory" where
  "copy_ips [] len m = (len, m)"
| "copy_ips (a # as) len m = copy_ips as (len + sizeof_in_addr_t) (store_bytes len (be32 a) m)"

text \<open>The block \<^verbatim>\<open>if (data_buf->db_len == 0) { ... }\<close>: a fresh header.\<close>

definition new_pkt :: "worker \<Rightarrow> nat \<times> memory" where
  "new_pkt s =
     (if db_len s = 0
      then (sizeof_dnsflow_hdr,
            (store_bytes 0 (replicate sizeof_dnsflow_hdr 0) (pkt s))
              (off_version := DNSFLOW_VERSION, off_sets_count := 0))
      else (db_len s, pkt s))"

text \<open>
  From \<^verbatim>\<open>/* Start building new set. */\<close> to the end of the address loop. \<open>len\<close> is
  \<^verbatim>\<open>db_len\<close> on entry, which is where \<^verbatim>\<open>set_hdr\<close> points. \<^verbatim>\<open>names_len\<close> is the pointer
  difference converted to \<^verbatim>\<open>uint16_t\<close>.
\<close>

definition build_set :: "in_addr_t \<Rightarrow> dns_data_set \<Rightarrow> nat \<Rightarrow> memory \<Rightarrow> memory + nat \<times> memory" where
  "build_set client_ip dns_data len m =
     (let set_hdr = len;
          names_count = min (length (names dns_data)) DNSFLOW_NAMES_COUNT_MAX;
          ips_count = min (length (ips dns_data)) DNSFLOW_IPS_COUNT_MAX;
          m1 = store_bytes set_hdr (replicate sizeof_dnsflow_set_hdr 0) m;
          m2 = store_bytes (set_hdr + off_client_ip) (be32 client_ip) m1;
          m3 = m2(set_hdr + off_names_count := of_nat names_count,
                  set_hdr + off_ips_count := of_nat ips_count);
          names_start = len + sizeof_dnsflow_set_hdr
      in case copy_names (take names_count (names dns_data)) names_start m3 of
           Inl m4 \<Rightarrow> Inl m4
         | Inr (len4, m4) \<Rightarrow>
             (let (len5, m5) = pad_names len4 m4;
                  m6 = store_bytes (set_hdr + off_names_len) (be16 (of_nat (len5 - names_start))) m5
              in Inr (copy_ips (take ips_count (ips dns_data)) len5 m6)))"

definition dnsflow_pkt_build :: "int \<Rightarrow> in_addr_t \<Rightarrow> dns_data_set \<Rightarrow> worker \<Rightarrow> worker" where
  "dnsflow_pkt_build now client_ip dns_data s =
     (let (len0, m0) = new_pkt s
      in case build_set client_ip dns_data len0 m0 of
           Inl m \<Rightarrow> (log_line ''Pkt create error'' (s\<lparr>pkt := m\<rparr>))\<lparr>db_len := 0\<rparr>
         | Inr (len, m) \<Rightarrow>
             (let m' = m(off_sets_count := m off_sets_count + 1);
                  s' = s\<lparr>pkt := m', db_len := len\<rparr>
              in if len \<ge> DNSFLOW_PKT_TARGET_SIZE \<or> m' off_sets_count = DNSFLOW_SETS_COUNT_MAX
                 then dnsflow_pkt_send_data now s' else s'))"

section \<open>Stats ticker: \<^verbatim>\<open>dnsflow_stats_cb\<close>\<close>

text \<open>
  Modelled from the spec: \<^verbatim>\<open>struct dcap_stat\<close> is declared in \<^verbatim>\<open>dcap.h\<close>, which is not among
  the sources. The record has the fields the specification gives for the counters of the
  capture adapter, \<open>{captured, ps_recv, ps_drop, ps_ifdrop, ps_valid}\<close>, which are the fields
  \<^verbatim>\<open>dnsflow_stats_cb\<close> and \<^verbatim>\<open>dnsflow_print_stats\<close> read.
\<close>

record dcap_stat =
  captured :: "32 word"
  ps_valid :: bool
  ps_recv :: "32 word"
  ps_drop :: "32 word"
  ps_ifdrop :: "32 word"

text \<open>The conversion \<^verbatim>\<open>%u\<close> of \<^verbatim>\<open>printf\<close>.\<close>

fun show_nat :: "nat \<Rightarrow> string" where
  "show_nat n =
     (if n < 10 then [''0123456789'' ! n]
      else show_nat (n div 10) @ [''0123456789'' ! (n mod 10)])"

declare show_nat.simps [simp del]

definition dnsflow_print_stats :: "dcap_stat \<Rightarrow> worker \<Rightarrow> worker" where
  "dnsflow_print_stats ds s =
     (let s1 = log_line (show_nat (unat (captured ds)) @ '' packets captured'') s
      in if ps_valid ds
         then log_line (show_nat (unat (ps_ifdrop ds)) @ '' packets dropped by interface'')
               (log_line (show_nat (unat (ps_drop ds)) @ '' packets dropped by kernel'')
                 (log_line (show_nat (unat (ps_recv ds)) @ '' packets received by filter'') s1))
         else s1)"

text \<open>
  The stats buffer is a local \<^verbatim>\<open>struct dnsflow_buf\<close>: a header followed by the five
  counters of \<^verbatim>\<open>struct dnsflow_stats_pkt\<close>. \<open>ds\<close> is what \<^verbatim>\<open>dcap_get_stats\<close> returns and
  \<open>sample_rate\<close> is \<^verbatim>\<open>dcap->sample_rate\<close>.
\<close>

definition dnsflow_stats_cb :: "dcap_stat \<Rightarrow> 32 word \<Rightarrow> worker \<Rightarrow> worker" where
  "dnsflow_stats_cb ds sample_rate s =
     (let s1 = s\<lparr>stats_counter := stats_counter s + 1\<rparr>;
          s2 = (if stats_counter s1 mod 6 = 0 then dnsflow_print_stats ds s1 else s1);
          buf = [DNSFLOW_VERSION, 1] @ be16 DNSFLOW_FLAG_STATS @ be32 (sequence_number s2)
                @ be32 (captured ds) @ be32 (ps_recv ds) @ be32 (ps_drop ds)
                @ be32 (ps_ifdrop ds) @ be32 sample_rate
      in dnsflow_pkt_send buf (s2\<lparr>sequence_number := sequence_number s2 + 1\<rparr>))"

section \<open>Decapsulator\<close>

text \<open>
  A captured frame is the memory \<open>p\<close> that starts at \<^verbatim>\<open>ip_pkt\<close> together with the captured
  length \<^verbatim>\<open>pkt_len\<close>; \<^verbatim>\<open>struct ip *\<close> and \<^verbatim>\<open>struct udphdr *\<close> are offsets into \<open>p\<close>.
  The readers below are the fields of \<^verbatim>\<open>struct ip\<close> and \<^verbatim>\<open>struct udphdr\<close> the code uses;
  \<open>ip_len\<close> and \<open>uh_ulen\<close> are read through \<^verbatim>\<open>ntohs\<close> as in the source.
\<close>

abbreviation (input) sizeof_ip :: nat where "sizeof_ip \<equiv> 20"
abbreviation (input) sizeof_udphdr :: nat where "sizeof_udphdr \<equiv> 8"
abbreviation (input) sizeof_pcap_sf_pkthdr :: nat where "sizeof_pcap_sf_pkthdr \<equiv> 16"
abbreviation (input) sizeof_ether_header :: nat where "sizeof_ether_header \<equiv> 14"
abbreviation (input) sizeof_jmirror_hdr :: nat where "sizeof_jmirror_hdr \<equiv> 8"
abbreviation (input) IPVERSION :: nat where "IPVERSION \<equiv> 4"
abbreviation (input) IPPROTO_UDP :: nat where "IPPROTO_UDP \<equiv> 17"

definition ip_v :: "memory \<Rightarrow> nat \<Rightarrow> nat" where
  "ip_v p ip = unat (drop_bit 4 (p ip))"

definition ip_hl :: "memory \<Rightarrow> nat \<Rightarrow> nat" where
  "ip_hl p ip = unat (p ip AND 0x0f)"

definition ip_len :: "memory \<Rightarrow> nat \<Rightarrow> nat" where
  "ip_len p ip = unat (from_be16 (load_bytes p (ip + 2) 2))"

definition ip_p :: "memory \<Rightarrow> nat \<Rightarrow> nat" where
  "ip_p p ip = unat (p (ip + 9))"

definition ip_dst :: "memory \<Rightarrow> nat \<Rightarrow> in_addr_t" where
  "ip_dst p ip = from_be32 (load_bytes p (ip + 16) 4)"

definition uh_dport :: "memory \<Rightarrow> nat \<Rightarrow> 16 word" where
  "uh_dport p udphdr = from_be16 (load_bytes p (udphdr + 2) 2)"

definition uh_ulen :: "memory \<Rightarrow> nat \<Rightarrow> nat" where
  "uh_ulen p udphdr = unat (from_be16 (load_bytes p (udphdr + 4) 2))"

text \<open>
  \<^verbatim>\<open>pkt_len < sizeof(...)\<close> compares an \<^verbatim>\<open>int\<close> with a \<^verbatim>\<open>size_t\<close>: the \<^verbatim>\<open>int\<close> is converted
  to the unsigned type first (64 bits wide here).
\<close>

definition lt_sizeof :: "int \<Rightarrow> nat \<Rightarrow> bool" where
  "lt_sizeof pkt_len n \<longleftrightarrow> pkt_len mod 2 ^ 64 < int n"

definition ip4_check :: "int \<Rightarrow> memory \<Rightarrow> nat \<Rightarrow> nat option" where
  "ip4_check pkt_len p ip =
     (if lt_sizeof pkt_len sizeof_ip then None
      else if ip_v p ip \<noteq> IPVERSION then None
      else if pkt_len < int (ip_hl p ip * 4) then None
      else if pkt_len < int (ip_len p ip) then None
      else if ip_len p ip < ip_hl p ip * 4 then None
      else Some ip)"

definition udp4_check :: "int \<Rightarrow> memory \<Rightarrow> nat \<Rightarrow> nat option" where
  "udp4_check pkt_len p ip =
     (let ip_hdr_len = ip_hl p ip * 4
      in if ip_p p ip \<noteq> IPPROTO_UDP then None
         else if lt_sizeof pkt_len (sizeof_ip + sizeof_udphdr) then None
         else let udphdr = ip + ip_hdr_len
              in if pkt_len < int (ip_hdr_len + uh_ulen p udphdr) then None
                 else Some udphdr)"

text \<open>
  \<^verbatim>\<open>ip_udp_check\<close> returns \<^verbatim>\<open>udp_data\<close> and sets \<^verbatim>\<open>*ip_ret\<close> and \<^verbatim>\<open>*udphdr_ret\<close>; here it
  returns the three pointers \<open>(ip, udphdr, udp_data)\<close>, or \<open>None\<close> for \<^verbatim>\<open>NULL\<close>.
\<close>

definition ip_udp_check :: "int \<Rightarrow> memory \<Rightarrow> nat \<Rightarrow> (nat \<times> nat \<times> nat) option" where
  "ip_udp_check pkt_len p ip_pkt =
     (case ip4_check pkt_len p ip_pkt of
        None \<Rightarrow> None
      | Some ip \<Rightarrow>
          (case udp4_check pkt_len p ip of
             None \<Rightarrow> None
           | Some udphdr \<Rightarrow> Some (ip, udphdr, udphdr + sizeof_udphdr)))"

definition ip_encap_check :: "int \<Rightarrow> memory \<Rightarrow> nat \<Rightarrow> nat \<Rightarrow> (nat \<times> nat \<times> nat) option" where
  "ip_encap_check pkt_len p encap_hdr ip_encap_offset =
     (if pkt_len < int ip_encap_offset then None
      else ip_udp_check (pkt_len - int ip_encap_offset) p (encap_hdr + ip_encap_offset))"

text \<open>
  The two encapsulation ports of the configuration. The source keeps them in network
  byte order and compares them with the raw \<^verbatim>\<open>uh_dport\<close>; both sides are port numbers
  here. A port that was not configured is 0.
\<close>

record config =
  pcap_record_dst_port :: "16 word"
  jmirror_dst_port :: "16 word"

text \<open>
  The first half of \<^verbatim>\<open>dnsflow_dcap_cb\<close>, up to the call of \<^verbatim>\<open>dnsflow_dns_check\<close>: the
  pointers \<open>(ip, udphdr, udp_data)\<close> of the innermost frame. \<^verbatim>\<open>ip_pkt\<close> is offset 0.
\<close>

definition dcap_cb_decap :: "config \<Rightarrow> int \<Rightarrow> memory \<Rightarrow> (nat \<times> nat \<times> nat) option" where
  "dcap_cb_decap cfg pkt_len p =
     (case ip_udp_check pkt_len p 0 of
        None \<Rightarrow> None
      | Some (ip, udphdr, udp_data) \<Rightarrow>
          (let remaining = pkt_len - int udp_data;
               ip_encap_offset =
                 (if uh_dport p udphdr = pcap_record_dst_port cfg
                  then sizeof_pcap_sf_pkthdr + sizeof_ether_header
                  else if uh_dport p udphdr = jmirror_dst_port cfg
                  then sizeof_jmirror_hdr
                  else 0)
           in if ip_encap_offset \<noteq> 0
              then ip_encap_check remaining p udp_data ip_encap_offset
              else Some (ip, udphdr, udp_data)))"

text \<open>
  The arguments \<^verbatim>\<open>dnsflow_dcap_cb\<close> passes to \<^verbatim>\<open>dnsflow_dns_check\<close>, as
  \<open>(dns_pkt, pkt_len)\<close>: where the DNS parser starts reading and how many bytes it is
  told it may read.
\<close>

definition dns_check_args :: "config \<Rightarrow> int \<Rightarrow> memory \<Rightarrow> (nat \<times> nat) option" where
  "dns_check_args cfg pkt_len p =
     (case dcap_cb_decap cfg pkt_len p of
        None \<Rightarrow> None
      | Some (ip, udphdr, udp_data) \<Rightarrow> Some (udp_data, uh_ulen p udphdr))"

text \<open>
  Two more readings of \<^verbatim>\<open>dnsflow_dcap_cb\<close>. \<open>dcap_cb_encap_offset\<close> is the value of its local
  \<^verbatim>\<open>ip_encap_offset\<close> once the outer headers have passed \<^verbatim>\<open>ip_udp_check\<close>: the length of
  the encapsulation header the destination port of the frame selects, 0 for a frame that
  is not encapsulated. \<open>dcap_client_ip\<close> is the client address, \<^verbatim>\<open>ip->ip_dst.s_addr\<close> of the
  innermost header, that \<^verbatim>\<open>dnsflow_dcap_cb\<close> passes to \<^verbatim>\<open>dnsflow_pkt_build\<close>
  (\<open>dcap_cb_uses_client_ip\<close> below).
\<close>

definition dcap_cb_encap_offset :: "config \<Rightarrow> int \<Rightarrow> memory \<Rightarrow> nat option" where
  "dcap_cb_encap_offset cfg pkt_len p =
     (case ip_udp_check pkt_len p 0 of
        None \<Rightarrow> None
      | Some (ip, udphdr, udp_data) \<Rightarrow>
          Some (if uh_dport p udphdr = pcap_record_dst_port cfg
                then sizeof_pcap_sf_pkthdr + sizeof_ether_header
                else if uh_dport p udphdr = jmirror_dst_port cfg
                then sizeof_jmirror_hdr
                else 0))"

definition dcap_client_ip :: "config \<Rightarrow> int \<Rightarrow> memory \<Rightarrow> in_addr_t option" where
  "dcap_client_ip cfg pkt_len p =
     (case dcap_cb_decap cfg pkt_len p of
        None \<Rightarrow> None
      | Some (ip, udphdr, udp_data) \<Rightarrow> Some (ip_dst p ip))"

section \<open>DNS decoder\<close>

text \<open>
  The DNS wire parser is the ldns library, which is not part of the sources. An
  \<^verbatim>\<open>ldns_pkt\<close> holds what \<^verbatim>\<open>dnsflow_dns_check\<close> and \<^verbatim>\<open>dnsflow_dns_extract\<close> read of it through
  the accessors they call (\<^verbatim>\<open>ldns_pkt_qr\<close>, \<^verbatim>\<open>ldns_pkt_rd\<close>, \<^verbatim>\<open>ldns_pkt_ra\<close>,
  \<^verbatim>\<open>ldns_pkt_get_rcode\<close>, \<^verbatim>\<open>ldns_pkt_question\<close>, \<^verbatim>\<open>ldns_pkt_answer\<close>, \<^verbatim>\<open>ldns_rr_owner\<close>,
  \<^verbatim>\<open>ldns_rr_get_type\<close>, \<^verbatim>\<open>ldns_rr_rdf\<close>): the flags, the rcode, the
  question list and the answer list, each record with its owner name, its type and its
  rdata fields (\<^verbatim>\<open>ldns_rdf\<close>: the bytes \<^verbatim>\<open>ldns_rdf_data\<close> points to, \<^verbatim>\<open>ldns_rdf_size\<close> their
  number). \<^verbatim>\<open>ldns_pkt_qdcount\<close> and \<^verbatim>\<open>ldns_pkt_ancount\<close> are the lengths of the two lists,
  as \<^verbatim>\<open>ldns_wire2pkt\<close> leaves them.
\<close>

datatype ldns_rr_type = LDNS_RR_TYPE_A | LDNS_RR_TYPE_CNAME | LDNS_RR_TYPE_OTHER nat

datatype ldns_pkt_rcode = LDNS_RCODE_NOERROR | LDNS_RCODE_OTHER nat

record ldns_rr =
  rr_owner :: "byte list"
  rr_type :: ldns_rr_type
  rr_rdfs :: "byte list list"

record ldns_pkt =
  pkt_qr :: bool
  pkt_rd :: bool
  pkt_ra :: bool
  pkt_rcode :: ldns_pkt_rcode
  pkt_question :: "ldns_rr list"
  pkt_answer :: "ldns_rr list"

text \<open>
  \<^verbatim>\<open>ldns_wire2pkt\<close> is a parameter: \<open>Inr\<close> the parsed message, or \<open>Inl\<close> the text
  \<^verbatim>\<open>ldns_get_errorstr_by_id\<close> gives for the status.
\<close>

type_synonym wire2pkt = "byte list \<Rightarrow> string + ldns_pkt"

definition dnsflow_dns_check ::
  "wire2pkt \<Rightarrow> nat \<Rightarrow> memory \<Rightarrow> nat \<Rightarrow> worker \<Rightarrow> ldns_pkt option \<times> worker" where
  "dnsflow_dns_check ldns_wire2pkt pkt_len p dns_pkt s =
     (case ldns_wire2pkt (load_bytes p dns_pkt pkt_len) of
        Inl errorstr \<Rightarrow> (None, log_line (''Bad DNS pkt: '' @ errorstr) s)
      | Inr lp \<Rightarrow>
          if \<not> pkt_qr lp \<or> \<not> pkt_rd lp \<or> \<not> pkt_ra lp \<or> pkt_rcode lp \<noteq> LDNS_RCODE_NOERROR
          then (None, s)
          else if length (pkt_question lp) \<noteq> 1 then (None, s)
          else if rr_type (pkt_question lp ! 0) \<noteq> LDNS_RR_TYPE_A then (None, s)
          else (Some lp, s))"

text \<open>
  The body of the inner loop of \<^verbatim>\<open>dnsflow_dns_extract\<close>, for one rdata field of an answer
  record of type \<open>t\<close>. An A rdata holds four octets, read as an \<^verbatim>\<open>in_addr_t\<close>.
\<close>

definition extract_rdf ::
  "ldns_rr_type \<Rightarrow> byte list \<Rightarrow> dns_data_set \<times> worker \<Rightarrow> dns_data_set \<times> worker" where
  "extract_rdf t rdf st =
     (case st of (data, s) \<Rightarrow>
        if t = LDNS_RR_TYPE_CNAME then
          (if length (names data) = DNSFLOW_MAX_PARSE then (data, log_line ''Too many names'' s)
           else if length rdf > LDNS_MAX_DOMAINLEN then (data, log_line ''Invalid name'' s)
           else (data\<lparr>names := names data @ [rdf]\<rparr>, s))
        else if t = LDNS_RR_TYPE_A then
          (if length (ips data) = DNSFLOW_MAX_PARSE then (data, log_line ''Too many ips'' s)
           else (data\<lparr>ips := ips data @ [from_be32 rdf]\<rparr>, s))
        else (data, s))"

definition extract_rr :: "ldns_rr \<Rightarrow> dns_data_set \<times> worker \<Rightarrow> dns_data_set \<times> worker" where
  "extract_rr a_rr st = fold (extract_rdf (rr_type a_rr)) (rr_rdfs a_rr) st"

definition dnsflow_dns_extract :: "ldns_pkt \<Rightarrow> worker \<Rightarrow> dns_data_set option \<times> worker" where
  "dnsflow_dns_extract lp s =
     (let q_rr = pkt_question lp ! 0
      in if length (rr_owner q_rr) > LDNS_MAX_DOMAINLEN
         then (None, log_line ''Invalid query string'' s)
         else (case fold extract_rr (pkt_answer lp) (\<lparr>names = [rr_owner q_rr], ips = []\<rparr>, s) of
                 (data, s') \<Rightarrow>
                   if length (names data) = 0 then (None, s')
                   else if length (ips data) = 0 then (None, s')
                   else (Some data, s')))"

section \<open>The capture callback and the event loop\<close>

definition dnsflow_dcap_cb :: "config \<Rightarrow> wire2pkt \<Rightarrow> int \<Rightarrow> int \<Rightarrow> memory \<Rightarrow> worker \<Rightarrow> worker" where
  "dnsflow_dcap_cb cfg ldns_wire2pkt now pkt_len ip_pkt s =
     (case dcap_cb_decap cfg pkt_len ip_pkt of
        None \<Rightarrow> s
      | Some (ip, udphdr, udp_data) \<Rightarrow>
          (case dnsflow_dns_check ldns_wire2pkt (uh_ulen ip_pkt udphdr) ip_pkt udp_data s of
             (None, s1) \<Rightarrow> s1
           | (Some lp, s1) \<Rightarrow>
               (case dnsflow_dns_extract lp s1 of
                  (None, s2) \<Rightarrow> s2
                | (Some dns_data, s2) \<Rightarrow> dnsflow_pkt_build now (ip_dst ip_pkt ip) dns_data s2)))"

text \<open>
  What the event loop of one worker dispatches: a captured frame, the push timer, the
  stats timer. \<open>now\<close> is the clock at the event.
\<close>

datatype event =
  Captured int int memory
  | Push_timer int
  | Stats_timer dcap_stat "32 word"

fun step :: "config \<Rightarrow> wire2pkt \<Rightarrow> event \<Rightarrow> worker \<Rightarrow> worker" where
  "step cfg w2p (Captured now pkt_len ip_pkt) s = dnsflow_dcap_cb cfg w2p now pkt_len ip_pkt s"
| "step cfg w2p (Push_timer now) s = dnsflow_push_cb now s"
| "step cfg w2p (Stats_timer ds sample_rate) s = dnsflow_stats_cb ds sample_rate s"

definition run :: "config \<Rightarrow> wire2pkt \<Rightarrow> event list \<Rightarrow> worker" where
  "run cfg w2p evs = fold (step cfg w2p) evs init_worker"

section \<open>The capture filter: \<^verbatim>\<open>build_pcap_filter\<close>\<close>

text \<open>
  \<^verbatim>\<open>build_pcap_filter\<close> prints an expression of the pcap filter language. The model builds
  the expression as a term: \<open>Load ''ip'' k n\<close> is \<^verbatim>\<open>ip[k:n]\<close>, \<open>Load ''udp'' k n\<close> is
  \<^verbatim>\<open>udp[k:n]\<close>, and \<open>Minus\<close>, \<open>Times\<close>, \<open>Over\<close>, \<open>BitAnd\<close>, \<open>Eq\<close> are \<^verbatim>\<open>-\<close>, \<^verbatim>\<open>*\<close>, \<^verbatim>\<open>/\<close>,
  \<^verbatim>\<open>&\<close>, \<^verbatim>\<open>=\<close>, grouped as the filter language groups them: \<^verbatim>\<open>*\<close> and \<^verbatim>\<open>/\<close> from the left and
  before \<^verbatim>\<open>-\<close>, arithmetic before \<^verbatim>\<open>=\<close>, \<^verbatim>\<open>and\<close> from the left. A literal is a 32-bit
  number; \<open>Proto\<close> is one of the primitives \<^verbatim>\<open>udp\<close> and \<^verbatim>\<open>vlan\<close>.
\<close>

datatype arth =
  Const "32 word"
  | Load string nat nat
  | Minus arth arth
  | Times arth arth
  | Over arth arth
  | BitAnd arth arth

datatype filter =
  Proto string
  | Eq arth arth
  | And filter filter
  | Or filter filter

text \<open>
  The clause \<^verbatim>\<open>ip[%d:4] - ip[%d:4] / %u * %u = %u\<close> with the arguments \<open>off\<close>, \<open>off\<close>,
  \<^verbatim>\<open>num_procs\<close>, \<^verbatim>\<open>num_procs\<close>, \<^verbatim>\<open>proc_i - 1\<close>. The last three are of type \<^verbatim>\<open>int\<close> and printed
  with \<^verbatim>\<open>%u\<close>, that is as 32-bit unsigned numbers.
\<close>

definition multi_proc_clause :: "nat \<Rightarrow> int \<Rightarrow> int \<Rightarrow> filter" where
  "multi_proc_clause off proc_i num_procs =
     Eq (Minus (Load ''ip'' off 4)
               (Times (Over (Load ''ip'' off 4) (Const (word_of_int num_procs)))
                      (Const (word_of_int num_procs))))
        (Const (word_of_int (proc_i - 1)))"

text \<open>
  \<^verbatim>\<open>build_pcap_filter\<close>: the offsets of the inner headers, the port filter
  (\<^verbatim>\<open>udp[%d:2] = 53\<close>, with mDNS \<^verbatim>\<open>(udp[%d:2] = 53 or udp[%d:2] = 5353)\<close>), the response
  filter (\<^verbatim>\<open>udp and %s and udp[%d:2] & 0x8187 = 0x8180\<close>), the shard clause when
  \<^verbatim>\<open>num_procs > 1\<close>, and the whole \<^verbatim>\<open>(%s) or (vlan and (%s))\<close>.
\<close>

definition filter_udp_offset :: "nat \<Rightarrow> nat" where
  "filter_udp_offset encap_offset =
     (if encap_offset \<noteq> 0 then sizeof_udphdr + encap_offset + sizeof_ip else 0)"

definition filter_ip_offset :: "nat \<Rightarrow> nat" where
  "filter_ip_offset encap_offset =
     (if encap_offset \<noteq> 0 then sizeof_ip + sizeof_udphdr + encap_offset else 0)"

abbreviation (input) src_port_offset :: nat where "src_port_offset \<equiv> 0"
abbreviation (input) dns_flags_offset :: nat where "dns_flags_offset \<equiv> 10"
abbreviation (input) dst_ip_offset :: nat where "dst_ip_offset \<equiv> 16"

definition port_filter :: "nat \<Rightarrow> bool \<Rightarrow> filter" where
  "port_filter udp_offset enable_mdns =
     (if enable_mdns
      then Or (Eq (Load ''udp'' (src_port_offset + udp_offset) 2) (Const 53))
              (Eq (Load ''udp'' (src_port_offset + udp_offset) 2) (Const 5353))
      else Eq (Load ''udp'' (src_port_offset + udp_offset) 2) (Const 53))"

definition dns_resp_filter :: "nat \<Rightarrow> bool \<Rightarrow> filter" where
  "dns_resp_filter udp_offset enable_mdns =
     And (And (Proto ''udp'') (port_filter udp_offset enable_mdns))
         (Eq (BitAnd (Load ''udp'' (dns_flags_offset + udp_offset) 2) (Const 0x8187))
             (Const 0x8180))"

definition build_pcap_filter :: "nat \<Rightarrow> int \<Rightarrow> int \<Rightarrow> bool \<Rightarrow> filter" where
  "build_pcap_filter encap_offset proc_i num_procs enable_mdns =
     (let udp_offset = filter_udp_offset encap_offset;
          ip_offset = filter_ip_offset encap_offset;
          multi_proc_filter =
            (if num_procs > 1
             then And (dns_resp_filter udp_offset enable_mdns)
                      (multi_proc_clause (dst_ip_offset + ip_offset) proc_i num_procs)
             else dns_resp_filter udp_offset enable_mdns)
      in Or multi_proc_filter (And (Proto ''vlan'') multi_proc_filter))"

text \<open>
  The call in \<^verbatim>\<open>main\<close>, made when no filter is given with \<^verbatim>\<open>-f\<close>:
  \<^verbatim>\<open>build_pcap_filter(encap_offset, proc_i, n_procs, enable_mdns)\<close>. \<^verbatim>\<open>proc_i\<close> and \<^verbatim>\<open>n_procs\<close>
  are \<^verbatim>\<open>uint32_t\<close> in \<^verbatim>\<open>main\<close> (\<^verbatim>\<open>-m\<close> reads them with \<^verbatim>\<open>%u\<close> and only refuses 0 and
  \<^verbatim>\<open>proc_i > n_procs\<close>) and the parameters are \<^verbatim>\<open>int\<close>: the conversion keeps the 32 bits and
  reads them as a signed number, as the compilers the program is built with define it.
  \<^verbatim>\<open>encap_offset\<close> is 0, or the size of the encapsulation header of \<^verbatim>\<open>-J\<close> or \<^verbatim>\<open>-X\<close>.
\<close>

definition main_filter :: "nat \<Rightarrow> 32 word \<Rightarrow> 32 word \<Rightarrow> bool \<Rightarrow> filter" where
  "main_filter encap_offset proc_i n_procs enable_mdns =
     build_pcap_filter encap_offset (sint proc_i) (sint n_procs) enable_mdns"


section \<open>Reading the wire format back\<close>

text \<open>The header fields of an emitted buffer and the fields of a set found at \<open>off\<close>.\<close>

definition hdr_version :: "byte list \<Rightarrow> nat" where
  "hdr_version buf = unat (buf ! off_version)"

definition hdr_sets_count :: "byte list \<Rightarrow> nat" where
  "hdr_sets_count buf = unat (buf ! off_sets_count)"

definition hdr_sequence_number :: "byte list \<Rightarrow> 32 word" where
  "hdr_sequence_number buf = from_be32 (take 4 (drop off_sequence_number buf))"

definition set_client_ip :: "memory \<Rightarrow> nat \<Rightarrow> in_addr_t" where
  "set_client_ip m off = from_be32 (load_bytes m (off + off_client_ip) 4)"

definition set_names_count :: "memory \<Rightarrow> nat \<Rightarrow> nat" where
  "set_names_count m off = unat (m (off + off_names_count))"

definition set_ips_count :: "memory \<Rightarrow> nat \<Rightarrow> nat" where
  "set_ips_count m off = unat (m (off + off_ips_count))"

definition set_names_len :: "memory \<Rightarrow> nat \<Rightarrow> nat" where
  "set_names_len m off = unat (from_be16 (load_bytes m (off + off_names_len) 2))"

definition set_names_region :: "memory \<Rightarrow> nat \<Rightarrow> byte list" where
  "set_names_region m off = load_bytes m (off + sizeof_dnsflow_set_hdr) (set_names_len m off)"

definition set_ips_region :: "memory \<Rightarrow> nat \<Rightarrow> byte list" where
  "set_ips_region m off =
     load_bytes m (off + sizeof_dnsflow_set_hdr + set_names_len m off)
       (sizeof_in_addr_t * set_ips_count m off)"

section \<open>Memory and byte-order lemmas\<close>

lemma load_bytes_length [simp]: "length (load_bytes m a n) = n"
  by (simp add: load_bytes_def)

lemma load_bytes_nth: "i < n \<Longrightarrow> load_bytes m a n ! i = m (a + i)"
  by (simp add: load_bytes_def)

lemma load_bytes_add: "load_bytes m a (n + k) = load_bytes m a n @ load_bytes m (a + n) k"
  using upt_add_eq_append[of a "a + n" k] by (simp add: load_bytes_def add.assoc)

lemma load_bytes_cong:
  "(\<And>i. a \<le> i \<Longrightarrow> i < a + n \<Longrightarrow> m i = m' i) \<Longrightarrow> load_bytes m a n = load_bytes m' a n"
  by (simp add: load_bytes_def)

lemma store_bytes_outside: "i < a \<or> a + length bs \<le> i \<Longrightarrow> store_bytes a bs m i = m i"
  by (auto simp: store_bytes_def)

lemma store_bytes_inside:
  "a \<le> i \<Longrightarrow> i < a + length bs \<Longrightarrow> store_bytes a bs m i = bs ! (i - a)"
  by (simp add: store_bytes_def)

lemma load_store_same: "load_bytes (store_bytes a bs m) a (length bs) = bs"
  by (auto simp: load_bytes_def store_bytes_def intro!: nth_equalityI)

lemma load_store_other:
  "b + n \<le> a \<or> a + length bs \<le> b \<Longrightarrow>
     load_bytes (store_bytes a bs m) b n = load_bytes m b n"
  by (rule load_bytes_cong) (auto simp: store_bytes_def)

lemma load_upd_other:
  "a < b \<or> b + n \<le> a \<Longrightarrow> load_bytes (m(a := v)) b n = load_bytes m b n"
  by (rule load_bytes_cong) auto

lemma store_bytes_Nil: "store_bytes a [] m = m"
  by (auto simp: store_bytes_def fun_eq_iff)

lemma store_bytes_append:
  "store_bytes a (xs @ ys) m = store_bytes (a + length xs) ys (store_bytes a xs m)"
  by (auto simp: store_bytes_def fun_eq_iff nth_append)

lemma store_bytes_single: "store_bytes a [b] m = m(a := b)"
  by (auto simp: store_bytes_def fun_eq_iff)

lemma store_bytes_Cons: "store_bytes a (b # bs) m = store_bytes (Suc a) bs (m(a := b))"
  using store_bytes_append[of a "[b]" bs m] by (simp add: store_bytes_single)

lemma length_be32 [simp]: "length (be32 w) = 4"
  by (simp add: be32_def)

lemma length_be16 [simp]: "length (be16 w) = 2"
  by (simp add: be16_def)

lemma from_be32_be32 [simp]: "from_be32 (be32 w) = w"
  unfolding from_be32_def be32_def
  apply (rule bit_word_eqI)
  apply (simp add: bit_simps)
  apply (auto simp: bit_simps dest: bit_imp_le_length)
  subgoal for n by (cases "n < 16") auto
  subgoal for n by (cases "n < 16"; cases "n < 24") auto
  done

lemma be32_from_be32: "be32 (from_be32 [a, b, c, d]) = [a, b, c, d]"
  unfolding from_be32_def be32_def
  apply simp
  apply (intro conjI; rule bit_word_eqI)
     apply (auto simp: bit_simps dest: bit_imp_le_length)
  done

lemma from_be16_be16 [simp]: "from_be16 (be16 w) = w"
  unfolding from_be16_def be16_def
  apply (rule bit_word_eqI)
  apply (auto simp: bit_simps dest: bit_imp_le_length)
  done

section \<open>The loops of the batcher in closed form\<close>

text \<open>The number of zero bytes the padding loop writes when it starts at \<open>len\<close>.\<close>

definition pad_count :: "nat \<Rightarrow> nat" where
  "pad_count len = (4 - len mod 4) mod 4"

lemma pad_count_Suc: "len mod 4 \<noteq> 0 \<Longrightarrow> pad_count len = Suc (pad_count (Suc len))"
proof -
  assume "len mod 4 \<noteq> 0"
  moreover have "len mod 4 < 4" by simp
  ultimately consider "len mod 4 = 1" | "len mod 4 = 2" | "len mod 4 = 3" by linarith
  then show ?thesis
    by cases (simp_all add: pad_count_def mod_Suc)
qed

lemma pad_count_less: "pad_count len < 4"
  by (simp add: pad_count_def)

lemma pad_count_aligned: "(len + pad_count len) mod 4 = 0"
proof -
  have "len mod 4 < 4" by simp
  then consider "len mod 4 = 0" | "len mod 4 = 1" | "len mod 4 = 2" | "len mod 4 = 3"
    by linarith
  then have "(len mod 4 + pad_count len) mod 4 = 0"
    by cases (simp_all add: pad_count_def)
  then show ?thesis
    by (simp add: mod_add_left_eq)
qed

lemma pad_names_closed:
  "pad_names len m = (len + pad_count len, store_bytes len (replicate (pad_count len) 0) m)"
proof (induction len m rule: pad_names.induct)
  case (1 len m)
  show ?case
  proof (cases "len mod 4 = 0")
    case True
    then show ?thesis
      by (simp add: pad_names.simps[of len m] pad_count_def store_bytes_Nil)
  next
    case False
    from False have "pad_names len m = pad_names (Suc len) (m(len := 0))"
      by (simp add: pad_names.simps[of len m])
    also have "\<dots> = (Suc len + pad_count (Suc len),
        store_bytes (Suc len) (replicate (pad_count (Suc len)) 0) (m(len := 0)))"
      by (rule "1.IH"[OF False])
    also have "\<dots> = (len + pad_count len, store_bytes len (replicate (pad_count len) 0) m)"
      unfolding pad_count_Suc[OF False] by (simp add: store_bytes_Cons)
    finally show ?thesis .
  qed
qed

text \<open>
  The name loop either copies every name, one after the other, or stops at the guard;
  which of the two depends only on the lengths.
\<close>

lemma copy_names_closed:
  "len + length (concat ns) \<le> 65534 \<Longrightarrow>
     copy_names ns len m = Inr (len + length (concat ns), store_bytes len (concat ns) m)"
proof (induction ns arbitrary: len m)
  case Nil
  then show ?case by (simp add: store_bytes_Nil)
next
  case (Cons n ns)
  from Cons.prems have g: "\<not> int (length n) > int 65534 - int len" by simp
  from Cons.prems have "len + length n + length (concat ns) \<le> 65534" by simp
  from Cons.IH[OF this] g show ?case
    by (simp add: store_bytes_append add.assoc)
qed

lemma copy_names_guard:
  "65534 < len + length (concat ns) \<Longrightarrow> len \<le> 65534 \<Longrightarrow> isl (copy_names ns len m)"
proof (induction ns arbitrary: len m)
  case Nil
  then show ?case by simp
next
  case (Cons n ns)
  show ?case
  proof (cases "int (length n) > int 65534 - int len")
    case True
    then show ?thesis by simp
  next
    case False
    then have le: "len + length n \<le> 65534" by simp
    from Cons.prems have "65534 < len + length n + length (concat ns)" by simp
    from Cons.IH[OF this le] False show ?thesis by simp
  qed
qed

lemma copy_ips_closed:
  "copy_ips as len m = (len + 4 * length as, store_bytes len (concat (map be32 as)) m)"
  by (induction as arbitrary: len m) (simp_all add: store_bytes_Nil store_bytes_append)

section \<open>Batcher: what one append does\<close>


text \<open>Where the next set goes: \<^verbatim>\<open>db_len\<close> after the block that starts a new packet.\<close>

definition set_start :: "worker \<Rightarrow> nat" where
  "set_start s = fst (new_pkt s)"

text \<open>The append ends at the overflow guard: the \<open>Inl\<close> branch of \<open>dnsflow_pkt_build\<close>.\<close>

definition append_discarded :: "in_addr_t \<Rightarrow> dns_data_set \<Rightarrow> worker \<Rightarrow> bool" where
  "append_discarded client_ip dns_data s \<longleftrightarrow>
     isl (build_set client_ip dns_data (fst (new_pkt s)) (snd (new_pkt s)))"

text \<open>
  What holds of \<^verbatim>\<open>db_len\<close> between two events (\<open>run_batcher_inv\<close> below): it is under the
  target size, word aligned, and a buffer that is not empty holds a header and a set.
\<close>

definition batcher_inv :: "worker \<Rightarrow> bool" where
  "batcher_inv s \<longleftrightarrow>
     db_len s < DNSFLOW_PKT_TARGET_SIZE \<and> db_len s mod 4 = 0 \<and> (db_len s = 0 \<or> 16 \<le> db_len s)"

text \<open>The bytes of the names and of the addresses that an append copies.\<close>

definition names_bytes :: "dns_data_set \<Rightarrow> byte list" where
  "names_bytes d = concat (take DNSFLOW_NAMES_COUNT_MAX (names d))"

definition ips_bytes :: "dns_data_set \<Rightarrow> byte list" where
  "ips_bytes d = concat (map be32 (take DNSFLOW_IPS_COUNT_MAX (ips d)))"

lemma length_ips_bytes: "length (ips_bytes d) = 4 * min (length (ips d)) 255"
  by (simp add: ips_bytes_def length_concat comp_def sum_list_triv min.commute)

text \<open>The memory once the set header is zeroed and its first three fields are stored.\<close>

definition set_hdr_mem :: "in_addr_t \<Rightarrow> dns_data_set \<Rightarrow> nat \<Rightarrow> memory \<Rightarrow> memory" where
  "set_hdr_mem client_ip d len m =
     (store_bytes len (be32 client_ip) (store_bytes len (replicate 8 0) m))
       (len + 4 := of_nat (min (length (names d)) 255), len + 5 := of_nat (min (length (ips d)) 255))"

lemma build_set_closed:
  assumes "len + 8 + length (names_bytes d) \<le> 65534"
  shows "build_set cip d len m =
     Inr (len + 8 + length (names_bytes d) + pad_count (len + 8 + length (names_bytes d))
            + length (ips_bytes d),
          store_bytes (len + 8 + length (names_bytes d) + pad_count (len + 8 + length (names_bytes d)))
            (ips_bytes d)
            (store_bytes (len + 6)
               (be16 (of_nat (length (names_bytes d) + pad_count (len + 8 + length (names_bytes d)))))
               (store_bytes (len + 8 + length (names_bytes d))
                  (replicate (pad_count (len + 8 + length (names_bytes d))) 0)
                  (store_bytes (len + 8) (names_bytes d) (set_hdr_mem cip d len m)))))"
proof -
  have t: "take (min (length (names d)) 255) (names d) = take 255 (names d)"
    by (simp add: min_def)
  have ti: "take (min (length (ips d)) 255) (ips d) = take 255 (ips d)"
    by (simp add: min_def)
  have cn: "copy_names (take 255 (names d)) (len + 8) (set_hdr_mem cip d len m) =
      Inr (len + 8 + length (names_bytes d),
           store_bytes (len + 8) (names_bytes d) (set_hdr_mem cip d len m))"
    using copy_names_closed[of "len + 8" "take 255 (names d)"] assms
    by (simp add: names_bytes_def)
  show ?thesis
    unfolding build_set_def Let_def t ti
    unfolding set_hdr_mem_def[symmetric]
    by (simp add: cn[unfolded set_hdr_mem_def] pad_names_closed copy_ips_closed ips_bytes_def
        names_bytes_def length_concat comp_def sum_list_triv min.commute set_hdr_mem_def)
qed

lemma build_set_guard:
  assumes "65534 < len + 8 + length (names_bytes d)" and "len + 8 \<le> 65534"
  shows "isl (build_set cip d len m)"
proof -
  have t: "take (min (length (names d)) 255) (names d) = take 255 (names d)"
    by (simp add: min_def)
  from copy_names_guard[OF assms[unfolded names_bytes_def], of "set_hdr_mem cip d len m"]
  obtain x where "copy_names (take 255 (names d)) (len + 8) (set_hdr_mem cip d len m) = Inl x"
    by (auto simp: isl_def)
  then show ?thesis
    unfolding build_set_def Let_def t by (simp add: set_hdr_mem_def)
qed

lemma set_start_cases: "set_start s = (if db_len s = 0 then 8 else db_len s)"
  by (simp add: set_start_def new_pkt_def)

lemma set_start_bounds: "batcher_inv s \<Longrightarrow> 8 \<le> set_start s \<and> set_start s < 1200 \<and> set_start s mod 4 = 0"
  by (auto simp: batcher_inv_def set_start_cases)

lemma append_discarded_iff:
  assumes "batcher_inv s"
  shows "append_discarded cip d s \<longleftrightarrow> 65534 < set_start s + 8 + length (names_bytes d)"
proof (cases "65534 < set_start s + 8 + length (names_bytes d)")
  case True
  moreover from set_start_bounds[OF assms] have "set_start s + 8 \<le> 65534" by simp
  ultimately show ?thesis
    using build_set_guard[of "set_start s" d cip "snd (new_pkt s)"]
    by (simp add: append_discarded_def set_start_def)
next
  case False
  then have "set_start s + 8 + length (names_bytes d) \<le> 65534" by simp
  from build_set_closed[OF this, of cip "snd (new_pkt s)"] False show ?thesis
    by (simp add: append_discarded_def set_start_def)
qed

text \<open>The length of the name region, padding included, of a set that starts at \<open>len\<close>.\<close>

definition names_len_of :: "nat \<Rightarrow> dns_data_set \<Rightarrow> nat" where
  "names_len_of len d =
     length (names_bytes d) + pad_count (len + 8 + length (names_bytes d))"

lemma build_set_layout:
  assumes fits: "len + 8 + length (names_bytes d) \<le> 65534"
  shows "\<exists>m'. build_set cip d len m = Inr (len + 8 + names_len_of len d + length (ips_bytes d), m')
     \<and> (\<forall>i<len. m' i = m i)
     \<and> load_bytes m' len 4 = be32 cip
     \<and> m' (len + 4) = of_nat (min (length (names d)) 255)
     \<and> m' (len + 5) = of_nat (min (length (ips d)) 255)
     \<and> load_bytes m' (len + 6) 2 = be16 (of_nat (names_len_of len d))
     \<and> load_bytes m' (len + 8) (names_len_of len d)
           = names_bytes d @ replicate (pad_count (len + 8 + length (names_bytes d))) 0
     \<and> load_bytes m' (len + 8 + names_len_of len d) (length (ips_bytes d)) = ips_bytes d"
proof -
  define nb where "nb = names_bytes d"
  define pc where "pc = pad_count (len + 8 + length nb)"
  define ib where "ib = ips_bytes d"
  define h where "h = set_hdr_mem cip d len m"
  define m1 where "m1 = store_bytes (len + 8) nb h"
  define m2 where "m2 = store_bytes (len + 8 + length nb) (replicate pc 0) m1"
  define m3 where "m3 = store_bytes (len + 6) (be16 (of_nat (length nb + pc))) m2"
  define m4 where "m4 = store_bytes (len + 8 + length nb + pc) ib m3"
  have bs: "build_set cip d len m = Inr (len + 8 + (length nb + pc) + length ib, m4)"
    using build_set_closed[OF fits, of cip m]
    by (simp add: nb_def pc_def ib_def h_def m1_def m2_def m3_def m4_def add.assoc)
  have below: "m4 i = m i" if "i < len" for i
    using that
    by (simp add: m4_def m3_def m2_def m1_def h_def set_hdr_mem_def store_bytes_outside)
  have h_ip: "load_bytes h len 4 = be32 cip"
    unfolding h_def set_hdr_mem_def
    using load_store_same[of len "be32 cip"]
    by (simp add: load_upd_other)
  have cip: "load_bytes m4 len 4 = be32 cip"
    by (simp add: m4_def m3_def m2_def m1_def load_store_other h_ip)
  have nc: "m4 (len + 4) = of_nat (min (length (names d)) 255)"
    by (simp add: m4_def m3_def m2_def m1_def h_def set_hdr_mem_def store_bytes_outside)
  have ic: "m4 (len + 5) = of_nat (min (length (ips d)) 255)"
    by (simp add: m4_def m3_def m2_def m1_def h_def set_hdr_mem_def store_bytes_outside)
  have nl: "load_bytes m4 (len + 6) 2 = be16 (of_nat (length nb + pc))"
    unfolding m4_def
    using load_store_same[of "len + 6" "be16 (of_nat (length nb + pc))" m2]
    by (simp add: load_store_other m3_def)
  have n1: "load_bytes m4 (len + 8) (length nb) = nb"
    unfolding m4_def m3_def m2_def m1_def
    using load_store_same[of "len + 8" nb h]
    by (simp add: load_store_other)
  have n2: "load_bytes m4 (len + 8 + length nb) pc = replicate pc 0"
    unfolding m4_def m3_def m2_def
    using load_store_same[of "len + 8 + length nb" "replicate pc 0" m1]
    by (simp add: load_store_other)
  have nr: "load_bytes m4 (len + 8) (length nb + pc) = nb @ replicate pc 0"
    by (simp add: load_bytes_add n1 n2)
  have ir: "load_bytes m4 (len + 8 + (length nb + pc)) (length ib) = ib"
    unfolding m4_def
    using load_store_same[of "len + 8 + length nb + pc" ib m3]
    by (simp add: add.assoc)
  show ?thesis
    unfolding names_len_of_def nb_def[symmetric] pc_def[symmetric] ib_def[symmetric]
    using bs below cip nc ic nl nr ir by blast
qed

text \<open>\<^verbatim>\<open>db_len\<close> after the address loop of an append that was not discarded.\<close>

definition set_end :: "dns_data_set \<Rightarrow> worker \<Rightarrow> nat" where
  "set_end d s = set_start s + 8 + names_len_of (set_start s) d + length (ips_bytes d)"

lemma send_data_nonempty:
  "db_len s \<noteq> 0 \<Longrightarrow>
     dnsflow_pkt_send_data now s =
       s\<lparr>pkt := store_bytes 4 (be32 (sequence_number s)) (pkt s),
         sequence_number := sequence_number s + 1,
         sent := sent s @ [load_bytes (store_bytes 4 (be32 (sequence_number s)) (pkt s)) 0 (db_len s)],
         db_len := 0, last_send := now\<rparr>"
  by (simp add: dnsflow_pkt_send_data_def dnsflow_pkt_send_def Let_def)

lemma pkt_build_discarded:
  assumes "append_discarded cip d s"
  shows "\<exists>m. dnsflow_pkt_build now cip d s =
           s\<lparr>pkt := m, logged := logged s @ [''Pkt create error''], db_len := 0\<rparr>"
proof -
  from assms obtain m where
    "build_set cip d (fst (new_pkt s)) (snd (new_pkt s)) = Inl m"
    by (auto simp: append_discarded_def isl_def)
  then show ?thesis
    by (intro exI[of _ m]) (simp add: dnsflow_pkt_build_def case_prod_beta)
qed

lemma pkt_build_appended:
  assumes inv: "batcher_inv s" and ok: "\<not> append_discarded cip d s"
  shows "\<exists>m'. build_set cip d (set_start s) (snd (new_pkt s)) = Inr (set_end d s, m')
     \<and> (\<forall>i\<ge>8. pkt (dnsflow_pkt_build now cip d s) i = m' i)
     \<and> logged (dnsflow_pkt_build now cip d s) = logged s
     \<and> ((db_len (dnsflow_pkt_build now cip d s) = set_end d s
          \<and> set_end d s < 1200
          \<and> pkt (dnsflow_pkt_build now cip d s) 1 \<noteq> 255
          \<and> sent (dnsflow_pkt_build now cip d s) = sent s
          \<and> sequence_number (dnsflow_pkt_build now cip d s) = sequence_number s)
        \<or> (db_len (dnsflow_pkt_build now cip d s) = 0
          \<and> sent (dnsflow_pkt_build now cip d s)
              = sent s @ [load_bytes (pkt (dnsflow_pkt_build now cip d s)) 0 (set_end d s)]
          \<and> load_bytes (pkt (dnsflow_pkt_build now cip d s)) 4 4 = be32 (sequence_number s)
          \<and> sequence_number (dnsflow_pkt_build now cip d s) = sequence_number s + 1
          \<and> (1200 \<le> set_end d s \<or> pkt (dnsflow_pkt_build now cip d s) 1 = 255)))"
proof -
  from ok inv have fits: "set_start s + 8 + length (names_bytes d) \<le> 65534"
    by (simp add: append_discarded_iff)
  from build_set_layout[OF fits, of cip "snd (new_pkt s)"] obtain m' where
    bs: "build_set cip d (set_start s) (snd (new_pkt s)) = Inr (set_end d s, m')"
    by (auto simp: set_end_def)
  define m'' where "m'' = m'(1 := m' 1 + 1)"
  define s1 where "s1 = s\<lparr>pkt := m'', db_len := set_end d s\<rparr>"
  have pos: "set_end d s \<noteq> 0" by (simp add: set_end_def)
  have build: "dnsflow_pkt_build now cip d s =
      (if set_end d s \<ge> 1200 \<or> m'' 1 = 255 then dnsflow_pkt_send_data now s1 else s1)"
    using bs by (simp add: dnsflow_pkt_build_def case_prod_beta set_start_def Let_def m''_def s1_def)
  show ?thesis
  proof (cases "set_end d s \<ge> 1200 \<or> m'' 1 = 255")
    case True
    have s1d: "db_len s1 \<noteq> 0" using pos by (simp add: s1_def)
    have res: "dnsflow_pkt_build now cip d s =
        s1\<lparr>pkt := store_bytes 4 (be32 (sequence_number s1)) (pkt s1),
           sequence_number := sequence_number s1 + 1,
           sent := sent s1 @ [load_bytes (store_bytes 4 (be32 (sequence_number s1)) (pkt s1)) 0 (db_len s1)],
           db_len := 0, last_send := now\<rparr>"
      using True build send_data_nonempty[OF s1d, of now] by simp
    have a: "\<forall>i\<ge>8. pkt (dnsflow_pkt_build now cip d s) i = m' i"
      by (simp add: res s1_def m''_def store_bytes_outside)
    have b: "load_bytes (pkt (dnsflow_pkt_build now cip d s)) 4 4 = be32 (sequence_number s)"
      using load_store_same[of 4 "be32 (sequence_number s)" m'']
      by (simp add: res s1_def)
    have c: "pkt (dnsflow_pkt_build now cip d s) 1 = m'' 1"
      by (simp add: res s1_def store_bytes_outside)
    show ?thesis
      using bs a b c True by (simp add: res s1_def)
  next
    case False
    then have res: "dnsflow_pkt_build now cip d s = s1" using build by simp
    have a: "\<forall>i\<ge>8. pkt (dnsflow_pkt_build now cip d s) i = m' i"
      by (simp add: res s1_def m''_def)
    show ?thesis
      using bs a False by (simp add: res s1_def)
  qed
qed


lemma byte_neq_255: "(b::byte) \<noteq> 255 \<Longrightarrow> unat b < 255"
proof -
  assume "b \<noteq> 255"
  then have "unat b \<noteq> unat (255 :: byte)"
    by (simp add: word_unat_eq_iff)
  moreover have "unat b < 256" using unsigned_less[of b, where 'a = nat] by simp
  ultimately show ?thesis by simp
qed

lemma hdr_sets_count_load: "1 < n \<Longrightarrow> hdr_sets_count (load_bytes m 0 n) = unat (m 1)"
  by (simp add: hdr_sets_count_def load_bytes_nth)

lemma set_end_ge: "8 \<le> set_end d s"
  by (simp add: set_end_def)

text \<open>
  Claim C5. After an append that did not end at the overflow guard, either the buffer
  holds fewer than 1200 bytes and fewer than 255 sets and nothing was emitted, or
  \<open>db_len\<close> is 0 and the append emitted one buffer, which had reached 1200 bytes or
  255 sets.
\<close>

theorem C5_size_trigger:
  assumes "batcher_inv s" and "\<not> append_discarded client_ip dns_data s"
  shows "(db_len (dnsflow_pkt_build now client_ip dns_data s) < DNSFLOW_PKT_TARGET_SIZE
          \<and> unat (pkt (dnsflow_pkt_build now client_ip dns_data s) off_sets_count) < 255
          \<and> sent (dnsflow_pkt_build now client_ip dns_data s) = sent s)
       \<or> (db_len (dnsflow_pkt_build now client_ip dns_data s) = 0
          \<and> (\<exists>buf. sent (dnsflow_pkt_build now client_ip dns_data s) = sent s @ [buf]
                \<and> (DNSFLOW_PKT_TARGET_SIZE \<le> length buf \<or> hdr_sets_count buf = 255)))"
proof -
  let ?S = "dnsflow_pkt_build now client_ip dns_data s"
  have alt: "(db_len ?S = set_end dns_data s \<and> set_end dns_data s < 1200
        \<and> pkt ?S 1 \<noteq> 255 \<and> sent ?S = sent s
        \<and> sequence_number ?S = sequence_number s)
      \<or> (db_len ?S = 0
        \<and> sent ?S = sent s @ [load_bytes (pkt ?S) 0 (set_end dns_data s)]
        \<and> load_bytes (pkt ?S) 4 4 = be32 (sequence_number s)
        \<and> sequence_number ?S = sequence_number s + 1
        \<and> (1200 \<le> set_end dns_data s \<or> pkt ?S 1 = 255))"
    using pkt_build_appended[OF assms, of now] by (elim exE conjE)
  then show ?thesis
  proof
    assume "db_len ?S = set_end dns_data s \<and> set_end dns_data s < 1200
        \<and> pkt ?S 1 \<noteq> 255 \<and> sent ?S = sent s
        \<and> sequence_number ?S = sequence_number s"
    then show ?thesis by (simp add: byte_neq_255)
  next
    assume f: "db_len ?S = 0
        \<and> sent ?S = sent s @ [load_bytes (pkt ?S) 0 (set_end dns_data s)]
        \<and> load_bytes (pkt ?S) 4 4 = be32 (sequence_number s)
        \<and> sequence_number ?S = sequence_number s + 1
        \<and> (1200 \<le> set_end dns_data s \<or> pkt ?S 1 = 255)"
    have "1 < set_end dns_data s" using set_end_ge[of dns_data s] by simp
    then have "hdr_sets_count (load_bytes (pkt ?S) 0 (set_end dns_data s)) = unat (pkt ?S 1)"
      by (rule hdr_sets_count_load)
    with f have "1200 \<le> length (load_bytes (pkt ?S) 0 (set_end dns_data s))
        \<or> hdr_sets_count (load_bytes (pkt ?S) 0 (set_end dns_data s)) = 255"
      by auto
    with f show ?thesis by blast
  qed
qed

text \<open>
  A response used to instantiate the theorems: \<^verbatim>\<open>example.com.\<close> in wire form and the
  address 93.184.216.34.
\<close>

definition example_com :: "byte list" where
  "example_com = [7, 0x65, 0x78, 0x61, 0x6d, 0x70, 0x6c, 0x65, 3, 0x63, 0x6f, 0x6d, 0]"

definition example_response :: dns_data_set where
  "example_response = \<lparr>names = [example_com], ips = [0x5db8d822]\<rparr>"

lemma batcher_inv_init: "batcher_inv init_worker"
  by (simp add: batcher_inv_def init_worker_def)

lemma example_not_discarded: "\<not> append_discarded c example_response init_worker"
  unfolding append_discarded_iff[OF batcher_inv_init]
  by (simp add: set_start_cases init_worker_def names_bytes_def example_response_def
      example_com_def)

lemma example_build_db_len: "db_len (dnsflow_pkt_build 0 0x0a000007 example_response init_worker) = 36"
  by (simp add: dnsflow_pkt_build_def new_pkt_def build_set_def init_worker_def 
      example_response_def example_com_def pad_names_closed pad_count_def Let_def
      dnsflow_pkt_send_data_def store_bytes_def)

theorem C5_size_trigger_witness:
  "batcher_inv init_worker
   \<and> \<not> append_discarded 0x0a000007 example_response init_worker
   \<and> db_len (dnsflow_pkt_build 0 0x0a000007 example_response init_worker) = 36
   \<and> unat (pkt (dnsflow_pkt_build 0 0x0a000007 example_response init_worker) off_sets_count) < 255
   \<and> sent (dnsflow_pkt_build 0 0x0a000007 example_response init_worker) = sent init_worker"
proof -
  have nd: "\<not> append_discarded 0x0a000007 example_response init_worker"
    by (rule example_not_discarded)
  from C5_size_trigger[OF batcher_inv_init nd, of 0] batcher_inv_init nd example_build_db_len
  show ?thesis by simp
qed


lemma load_agree:
  "\<forall>i\<ge>8. m i = m' i \<Longrightarrow> 8 \<le> a \<Longrightarrow> load_bytes m a n = load_bytes m' a n"
  by (rule load_bytes_cong) simp

lemma names_len_of_aligned:
  assumes "len mod 4 = 0"
  shows "names_len_of len d mod 4 = 0"
proof -
  have "4 dvd len + 8" using assms by (simp add: mod_eq_0_iff_dvd)
  moreover have "4 dvd (len + 8) + names_len_of len d"
    using pad_count_aligned[of "len + 8 + length (names_bytes d)"]
    by (simp add: names_len_of_def mod_eq_0_iff_dvd add.assoc)
  ultimately have "4 dvd names_len_of len d"
    by (simp only: dvd_add_right_iff)
  then show ?thesis by (simp add: mod_eq_0_iff_dvd)
qed

lemma names_len_of_bound:
  "len + 8 + length (names_bytes d) \<le> 65534 \<Longrightarrow> names_len_of len d < 65536"
  using pad_count_less[of "len + 8 + length (names_bytes d)"]
  by (simp add: names_len_of_def)

lemma unat_of_nat_byte: "n < 256 \<Longrightarrow> unat (of_nat n :: byte) = n"
  by (simp add: unat_of_nat take_bit_nat_eq_self)

lemma unat_of_nat_u16: "n < 65536 \<Longrightarrow> unat (of_nat n :: 16 word) = n"
  by (simp add: unat_of_nat take_bit_nat_eq_self)

lemma take_names_count: "take (min (length xs) 255) xs = take 255 xs"
  by (simp add: min_def)

text \<open>
  Claim C1. Take an append that did not end at the overflow guard, of a response with
  \<open>k\<close> names and \<open>m\<close> addresses, and read the set back from the buffer memory
  at the offset where it was put. Its client address is the one given, \<open>names_count\<close> is
  \<open>min k 255\<close>, \<open>ips_count\<close> is \<open>min m 255\<close>, \<open>names_len\<close> is a multiple of 4, the
  \<open>names_len\<close> bytes after the 8-byte set header are the first \<open>names_count\<close> names in
  order followed by fewer than four zero bytes, and the next \<open>4 * ips_count\<close> bytes are the
  octets of the first \<open>ips_count\<close> addresses in order. The names need not be at most 255
  bytes long for this. The memory of the model has no end, so the statement also covers
  an append that runs past the 65535 bytes of the buffer (see \<open>C10\<close>).
\<close>

theorem C1_data_set_layout:
  assumes "batcher_inv s" and "\<not> append_discarded client_ip dns_data s"
  shows "set_client_ip (pkt (dnsflow_pkt_build now client_ip dns_data s)) (set_start s) = client_ip
    \<and> set_names_count (pkt (dnsflow_pkt_build now client_ip dns_data s)) (set_start s)
          = min (length (names dns_data)) 255
    \<and> set_ips_count (pkt (dnsflow_pkt_build now client_ip dns_data s)) (set_start s)
          = min (length (ips dns_data)) 255
    \<and> set_names_len (pkt (dnsflow_pkt_build now client_ip dns_data s)) (set_start s) mod 4 = 0
    \<and> (\<exists>pad<4. set_names_region (pkt (dnsflow_pkt_build now client_ip dns_data s)) (set_start s)
          = concat (take (min (length (names dns_data)) 255) (names dns_data)) @ replicate pad 0)
    \<and> set_ips_region (pkt (dnsflow_pkt_build now client_ip dns_data s)) (set_start s)
          = concat (map be32 (take (min (length (ips dns_data)) 255) (ips dns_data)))"
proof -
  let ?S = "dnsflow_pkt_build now client_ip dns_data s"
  let ?off = "set_start s"
  let ?nl = "names_len_of ?off dns_data"
  let ?pc = "pad_count (?off + 8 + length (names_bytes dns_data))"
  from assms have fits: "?off + 8 + length (names_bytes dns_data) \<le> 65534"
    by (simp add: append_discarded_iff)
  from set_start_bounds[OF assms(1)] have off8: "8 \<le> ?off" and al: "?off mod 4 = 0"
    by simp_all
  from pkt_build_appended[OF assms, of now] obtain m' where
    bs: "build_set client_ip dns_data ?off (snd (new_pkt s)) = Inr (set_end dns_data s, m')"
    and agree: "\<forall>i\<ge>8. pkt ?S i = m' i"
    by blast
  from build_set_layout[OF fits, of client_ip "snd (new_pkt s)"] bs
  have cip: "load_bytes m' ?off 4 = be32 client_ip"
    and nc: "m' (?off + 4) = of_nat (min (length (names dns_data)) 255)"
    and ic: "m' (?off + 5) = of_nat (min (length (ips dns_data)) 255)"
    and nl: "load_bytes m' (?off + 6) 2 = be16 (of_nat ?nl)"
    and nr: "load_bytes m' (?off + 8) ?nl = names_bytes dns_data @ replicate ?pc 0"
    and ir: "load_bytes m' (?off + 8 + ?nl) (length (ips_bytes dns_data)) = ips_bytes dns_data"
    by auto
  have 1: "set_client_ip (pkt ?S) ?off = client_ip"
    using off8 by (simp add: set_client_ip_def load_agree[OF agree] cip)
  have 2: "set_names_count (pkt ?S) ?off = min (length (names dns_data)) 255"
    using off8 agree by (simp add: set_names_count_def nc unat_of_nat_byte)
  have 3: "set_ips_count (pkt ?S) ?off = min (length (ips dns_data)) 255"
    using off8 agree by (simp add: set_ips_count_def ic unat_of_nat_byte)
  have 4: "set_names_len (pkt ?S) ?off = ?nl"
    using off8 names_len_of_bound[OF fits]
    by (simp add: set_names_len_def load_agree[OF agree] nl unat_of_nat_u16)
  have 5: "set_names_region (pkt ?S) ?off = names_bytes dns_data @ replicate ?pc 0"
    using off8 by (simp add: set_names_region_def 4 load_agree[OF agree] nr)
  have 6: "set_ips_region (pkt ?S) ?off = ips_bytes dns_data"
    using off8 ir by (simp add: set_ips_region_def 3 4 load_agree[OF agree] length_ips_bytes)
  have 7: "?pc < 4" by (rule pad_count_less)
  show ?thesis
    using 1 2 3 4 5 6 7 names_len_of_aligned[OF al, of dns_data]
    by (auto simp: names_bytes_def ips_bytes_def take_names_count)
qed

theorem C1_data_set_layout_witness:
  "batcher_inv init_worker
   \<and> \<not> append_discarded 0x0a000007 example_response init_worker
   \<and> set_client_ip (pkt (dnsflow_pkt_build 0 0x0a000007 example_response init_worker)) 8 = 0x0a000007
   \<and> set_names_count (pkt (dnsflow_pkt_build 0 0x0a000007 example_response init_worker)) 8 = 1
   \<and> set_ips_count (pkt (dnsflow_pkt_build 0 0x0a000007 example_response init_worker)) 8 = 1
   \<and> set_names_len (pkt (dnsflow_pkt_build 0 0x0a000007 example_response init_worker)) 8 mod 4 = 0
   \<and> (\<exists>pad<4. set_names_region (pkt (dnsflow_pkt_build 0 0x0a000007 example_response init_worker)) 8
          = example_com @ replicate pad 0)
   \<and> set_ips_region (pkt (dnsflow_pkt_build 0 0x0a000007 example_response init_worker)) 8
          = [0x5d, 0xb8, 0xd8, 0x22]"
proof -
  have nd: "\<not> append_discarded 0x0a000007 example_response init_worker"
    by (rule example_not_discarded)
  have st: "set_start init_worker = 8"
    by (simp add: set_start_cases init_worker_def)
  from C1_data_set_layout[OF batcher_inv_init nd, of 0] batcher_inv_init nd
  show ?thesis
    by (simp add: st example_response_def be32_def)
qed

section \<open>One event at a time: emission and the invariant of the batcher\<close>


text \<open>\<open>s'\<close> differs from \<open>s\<close> at most in what was logged.\<close>

definition only_logged :: "worker \<Rightarrow> worker \<Rightarrow> bool" where
  "only_logged s s' \<longleftrightarrow> s' = s\<lparr>logged := logged s'\<rparr>"

lemma only_logged_refl: "only_logged s s"
  by (simp add: only_logged_def)

lemma only_logged_log_line: "only_logged s s' \<Longrightarrow> only_logged s (log_line msg s')"
  by (metis (no_types, lifting) only_logged_def worker.surjective worker.update_convs(7))

lemma only_logged_fields:
  "only_logged s s' \<Longrightarrow>
     db_len s' = db_len s \<and> sent s' = sent s \<and> sequence_number s' = sequence_number s
     \<and> pkt s' = pkt s \<and> last_send s' = last_send s \<and> stats_counter s' = stats_counter s"
  by (metis (no_types, lifting) only_logged_def worker.select_convs(1-6) worker.surjective
      worker.update_convs(7))

lemma only_logged_trans: "only_logged s s1 \<Longrightarrow> only_logged s1 s2 \<Longrightarrow> only_logged s s2"
  by (metis (no_types, lifting) only_logged_def worker.surjective worker.update_convs(7))

lemma extract_rdf_only_logged: "only_logged s (snd st) \<Longrightarrow> only_logged s (snd (extract_rdf t rdf st))"
  by (cases st) (auto simp: extract_rdf_def only_logged_log_line)

lemma fold_extract_rdf_only_logged:
  "only_logged s (snd st) \<Longrightarrow> only_logged s (snd (fold (extract_rdf t) rdfs st))"
  by (induction rdfs arbitrary: st) (simp_all add: extract_rdf_only_logged)

lemma extract_rr_only_logged:
  "only_logged s (snd st) \<Longrightarrow> only_logged s (snd (extract_rr a_rr st))"
  by (simp add: extract_rr_def fold_extract_rdf_only_logged)

lemma fold_extract_rr_only_logged:
  "only_logged s (snd st) \<Longrightarrow> only_logged s (snd (fold extract_rr rrs st))"
  by (induction rrs arbitrary: st) (simp_all add: extract_rr_only_logged)

lemma dns_extract_only_logged: "only_logged s (snd (dnsflow_dns_extract lp s))"
proof (cases "length (rr_owner (pkt_question lp ! 0)) > 255")
  case True
  then show ?thesis
    by (simp add: dnsflow_dns_extract_def only_logged_log_line only_logged_refl)
next
  case False
  have "only_logged s (snd (fold extract_rr (pkt_answer lp)
      (\<lparr>names = [rr_owner (pkt_question lp ! 0)], ips = []\<rparr>, s)))"
    by (rule fold_extract_rr_only_logged) (simp add: only_logged_refl)
  with False show ?thesis
    by (simp add: dnsflow_dns_extract_def case_prod_beta Let_def)
qed

lemma dns_check_only_logged: "only_logged s (snd (dnsflow_dns_check w2p n p a s))"
  by (simp add: dnsflow_dns_check_def only_logged_log_line only_logged_refl split: sum.splits)

lemma dcap_cb_cases:
  "only_logged s (dnsflow_dcap_cb cfg w2p now pkt_len ip_pkt s)
   \<or> (\<exists>s1 ip d. only_logged s s1
        \<and> dnsflow_dcap_cb cfg w2p now pkt_len ip_pkt s = dnsflow_pkt_build now ip d s1)"
proof (cases "dcap_cb_decap cfg pkt_len ip_pkt")
  case None
  then show ?thesis by (simp add: dnsflow_dcap_cb_def only_logged_refl)
next
  case (Some r)
  obtain ip udphdr udp_data where r: "r = (ip, udphdr, udp_data)" by (cases r) auto
  let ?c = "dnsflow_dns_check w2p (uh_ulen ip_pkt udphdr) ip_pkt udp_data s"
  have c: "only_logged s (snd ?c)" by (rule dns_check_only_logged)
  show ?thesis
  proof (cases "fst ?c")
    case None
    with Some r c show ?thesis
      by (simp add: dnsflow_dcap_cb_def case_prod_beta)
  next
    case (Some lp)
    note lp = this
    let ?e = "dnsflow_dns_extract lp (snd ?c)"
    have e: "only_logged s (snd ?e)"
      by (rule only_logged_trans[OF c dns_extract_only_logged])
    show ?thesis
    proof (cases "fst ?e")
      case None
      with \<open>dcap_cb_decap cfg pkt_len ip_pkt = Some r\<close> r lp e show ?thesis
        by (simp add: dnsflow_dcap_cb_def case_prod_beta)
    next
      case (Some d)
      with \<open>dcap_cb_decap cfg pkt_len ip_pkt = Some r\<close> r lp
      have "dnsflow_dcap_cb cfg w2p now pkt_len ip_pkt s
          = dnsflow_pkt_build now (ip_dst ip_pkt ip) d (snd ?e)"
        by (simp add: dnsflow_dcap_cb_def case_prod_beta)
      with e show ?thesis by blast
    qed
  qed
qed

text \<open>
  What one event may do to the output: nothing, or hand exactly one buffer to
  \<^verbatim>\<open>dnsflow_pkt_send\<close>, stamped with the current counter, which is then incremented.
\<close>

definition step_emission :: "worker \<Rightarrow> worker \<Rightarrow> bool" where
  "step_emission s s' \<longleftrightarrow>
     (sent s' = sent s \<and> sequence_number s' = sequence_number s)
     \<or> (\<exists>buf. sent s' = sent s @ [buf] \<and> hdr_sequence_number buf = sequence_number s
           \<and> sequence_number s' = sequence_number s + 1)"

lemma hdr_sequence_number_load:
  assumes "8 \<le> n"
  shows "hdr_sequence_number (load_bytes m 0 n) = from_be32 (load_bytes m 4 4)"
proof -
  from assms obtain k where n: "n = 4 + (4 + k)" by (metis add.assoc le_Suc_ex numeral_Bit0)
  have "load_bytes m 0 n = load_bytes m 0 4 @ load_bytes m 4 4 @ load_bytes m 8 k"
    unfolding n using load_bytes_add[of m 0 4 "4 + k"] load_bytes_add[of m 4 4 k] by simp
  then show ?thesis by (simp add: hdr_sequence_number_def)
qed

lemma set_end_aligned: "batcher_inv s \<Longrightarrow> set_end d s mod 4 = 0"
proof -
  assume "batcher_inv s"
  then have al: "set_start s mod 4 = 0" by (simp add: set_start_bounds)
  then have "4 dvd set_start s" by (simp add: mod_eq_0_iff_dvd)
  moreover have "4 dvd names_len_of (set_start s) d"
    using names_len_of_aligned[OF al, of d] by (simp add: mod_eq_0_iff_dvd)
  moreover have "4 dvd length (ips_bytes d)" by (simp add: length_ips_bytes)
  ultimately have "4 dvd set_end d s" by (simp add: set_end_def)
  then show ?thesis by (simp add: mod_eq_0_iff_dvd)
qed

lemma set_end_ge16: "batcher_inv s \<Longrightarrow> 16 \<le> set_end d s"
  using set_start_bounds[of s] by (simp add: set_end_def)

lemma pkt_build_step:
  assumes inv: "batcher_inv s"
  shows "step_emission s (dnsflow_pkt_build now cip d s)
     \<and> batcher_inv (dnsflow_pkt_build now cip d s)"
proof (cases "append_discarded cip d s")
  case True
  from pkt_build_discarded[OF True, of now] obtain m where
    "dnsflow_pkt_build now cip d s
       = s\<lparr>pkt := m, logged := logged s @ [''Pkt create error''], db_len := 0\<rparr>" ..
  then show ?thesis by (simp add: step_emission_def batcher_inv_def)
next
  case False
  let ?S = "dnsflow_pkt_build now cip d s"
  have alt: "(db_len ?S = set_end d s \<and> set_end d s < 1200
        \<and> pkt ?S 1 \<noteq> 255 \<and> sent ?S = sent s
        \<and> sequence_number ?S = sequence_number s)
      \<or> (db_len ?S = 0
        \<and> sent ?S = sent s @ [load_bytes (pkt ?S) 0 (set_end d s)]
        \<and> load_bytes (pkt ?S) 4 4 = be32 (sequence_number s)
        \<and> sequence_number ?S = sequence_number s + 1
        \<and> (1200 \<le> set_end d s \<or> pkt ?S 1 = 255))"
    using pkt_build_appended[OF inv False, of now] by (elim exE conjE)
  then show ?thesis
  proof
    assume "db_len ?S = set_end d s \<and> set_end d s < 1200
        \<and> pkt ?S 1 \<noteq> 255 \<and> sent ?S = sent s
        \<and> sequence_number ?S = sequence_number s"
    then show ?thesis
      using set_end_aligned[OF inv, of d] set_end_ge16[OF inv, of d]
      by (simp add: step_emission_def batcher_inv_def)
  next
    assume f: "db_len ?S = 0
        \<and> sent ?S = sent s @ [load_bytes (pkt ?S) 0 (set_end d s)]
        \<and> load_bytes (pkt ?S) 4 4 = be32 (sequence_number s)
        \<and> sequence_number ?S = sequence_number s + 1
        \<and> (1200 \<le> set_end d s \<or> pkt ?S 1 = 255)"
    have "8 \<le> set_end d s" by (rule set_end_ge)
    then have "hdr_sequence_number (load_bytes (pkt ?S) 0 (set_end d s)) = sequence_number s"
      using f by (simp add: hdr_sequence_number_load)
    with f show ?thesis
      by (simp add: step_emission_def batcher_inv_def)
  qed
qed

lemma send_data_step:
  assumes inv: "batcher_inv s"
  shows "step_emission s (dnsflow_pkt_send_data now s)
     \<and> batcher_inv (dnsflow_pkt_send_data now s)"
proof (cases "db_len s = 0")
  case True
  with inv show ?thesis by (simp add: dnsflow_pkt_send_data_def step_emission_def)
next
  case False
  with inv have ge: "8 \<le> db_len s" by (simp add: batcher_inv_def)
  have "hdr_sequence_number
      (load_bytes (store_bytes 4 (be32 (sequence_number s)) (pkt s)) 0 (db_len s))
      = sequence_number s"
    using load_store_same[of 4 "be32 (sequence_number s)" "pkt s"]
    by (simp add: hdr_sequence_number_load[OF ge])
  then show ?thesis
    by (simp add: send_data_nonempty[OF False] step_emission_def batcher_inv_def)
qed

lemma push_cb_step:
  "batcher_inv s \<Longrightarrow>
     step_emission s (dnsflow_push_cb now s) \<and> batcher_inv (dnsflow_push_cb now s)"
  by (simp add: dnsflow_push_cb_def send_data_step) (simp add: step_emission_def)

lemma print_stats_only_logged: "only_logged s (dnsflow_print_stats ds s)"
  by (simp add: dnsflow_print_stats_def Let_def only_logged_def)

lemma stats_cb_step:
  assumes inv: "batcher_inv s"
  shows "step_emission s (dnsflow_stats_cb ds rate s) \<and> batcher_inv (dnsflow_stats_cb ds rate s)"
proof -
  define s1 where "s1 = s\<lparr>stats_counter := stats_counter s + 1\<rparr>"
  define s2 where "s2 = (if stats_counter s1 mod 6 = 0 then dnsflow_print_stats ds s1 else s1)"
  have "only_logged s1 s2"
    by (simp add: s2_def print_stats_only_logged only_logged_refl)
  from only_logged_fields[OF this]
  have f: "db_len s2 = db_len s" "sent s2 = sent s" "sequence_number s2 = sequence_number s"
    by (simp_all add: s1_def)
  have h: "hdr_sequence_number ([2, 1] @ be16 1 @ be32 (sequence_number s2) @ rest)
      = sequence_number s2" for rest
    by (simp add: hdr_sequence_number_def be16_def)
  have "dnsflow_stats_cb ds rate s =
      dnsflow_pkt_send ([2, 1] @ be16 1 @ be32 (sequence_number s2)
          @ (be32 (captured ds) @ be32 (ps_recv ds) @ be32 (ps_drop ds)
          @ be32 (ps_ifdrop ds) @ be32 rate))
        (s2\<lparr>sequence_number := sequence_number s2 + 1\<rparr>)"
    by (simp add: dnsflow_stats_cb_def Let_def s1_def s2_def)
  then show ?thesis
    using inv f h
    by (simp add: dnsflow_pkt_send_def step_emission_def batcher_inv_def)
qed

lemma step_emission_only_logged:
  "only_logged s s1 \<Longrightarrow> step_emission s1 s' \<Longrightarrow> step_emission s s'"
  using only_logged_fields[of s s1] by (simp add: step_emission_def)

lemma batcher_inv_only_logged: "only_logged s s1 \<Longrightarrow> batcher_inv s \<Longrightarrow> batcher_inv s1"
  using only_logged_fields[of s s1] by (simp add: batcher_inv_def)

lemma dcap_cb_step:
  assumes inv: "batcher_inv s"
  shows "step_emission s (dnsflow_dcap_cb cfg w2p now pkt_len ip_pkt s)
     \<and> batcher_inv (dnsflow_dcap_cb cfg w2p now pkt_len ip_pkt s)"
  using dcap_cb_cases[of s cfg w2p now pkt_len ip_pkt]
proof
  assume o: "only_logged s (dnsflow_dcap_cb cfg w2p now pkt_len ip_pkt s)"
  from only_logged_fields[OF o] batcher_inv_only_logged[OF o inv] show ?thesis
    by (simp add: step_emission_def)
next
  assume "\<exists>s1 ip d. only_logged s s1
      \<and> dnsflow_dcap_cb cfg w2p now pkt_len ip_pkt s = dnsflow_pkt_build now ip d s1"
  then obtain s1 ip d where o: "only_logged s s1"
    and b: "dnsflow_dcap_cb cfg w2p now pkt_len ip_pkt s = dnsflow_pkt_build now ip d s1"
    by blast
  from pkt_build_step[OF batcher_inv_only_logged[OF o inv], of now ip d]
  show ?thesis
    unfolding b using step_emission_only_logged[OF o] by blast
qed

lemma step_step:
  "batcher_inv s \<Longrightarrow> step_emission s (step cfg w2p e s) \<and> batcher_inv (step cfg w2p e s)"
  by (cases e) (simp_all add: dcap_cb_step push_cb_step stats_cb_step)

lemma run_snoc: "run cfg w2p (evs @ [e]) = step cfg w2p e (run cfg w2p evs)"
  by (simp add: run_def)

lemma run_batcher_inv: "batcher_inv (run cfg w2p evs)"
proof (induction evs rule: rev_induct)
  case Nil
  show ?case by (simp add: run_def batcher_inv_init)
next
  case (snoc e evs)
  then show ?case by (simp add: run_snoc step_step)
qed

lemma run_step_emission:
  "step_emission (run cfg w2p evs) (run cfg w2p (evs @ [e]))"
  by (simp add: run_snoc step_step run_batcher_inv)

text \<open>
  \<^verbatim>\<open>db_len\<close> stays in the range of \<^verbatim>\<open>uint32_t\<close>: between two events it is under the target
  size, and the largest value it takes inside an append that is not discarded is \<open>set_end\<close>.
\<close>

lemma db_len_bounded: "db_len (run cfg w2p evs) < DNSFLOW_PKT_TARGET_SIZE"
  using run_batcher_inv[of cfg w2p evs] by (simp add: batcher_inv_def)

lemma set_end_bounded:
  assumes "batcher_inv s" and "\<not> append_discarded cip d s"
  shows "set_end d s < 2 ^ 32"
proof -
  from assms have fits: "set_start s + 8 + length (names_bytes d) \<le> 65534"
    by (simp add: append_discarded_iff)
  have "pad_count (set_start s + 8 + length (names_bytes d)) < 4" by (rule pad_count_less)
  moreover have "length (ips_bytes d) \<le> 1020" by (simp add: length_ips_bytes)
  ultimately have "set_end d s \<le> 65534 + 3 + 1020"
    using fits by (simp add: set_end_def names_len_of_def)
  then show ?thesis by simp
qed

lemma run_sequence:
  "sequence_number (run cfg w2p evs) = 1 + of_nat (length (sent (run cfg w2p evs)))
   \<and> (\<forall>i<length (sent (run cfg w2p evs)).
         hdr_sequence_number (sent (run cfg w2p evs) ! i) = of_nat (i + 1))"
proof (induction evs rule: rev_induct)
  case Nil
  show ?case by (simp add: run_def init_worker_def)
next
  case (snoc e evs)
  let ?s = "run cfg w2p evs" and ?s' = "run cfg w2p (evs @ [e])"
  from run_step_emission[of cfg w2p evs e]
  have "(sent ?s' = sent ?s \<and> sequence_number ?s' = sequence_number ?s)
     \<or> (\<exists>buf. sent ?s' = sent ?s @ [buf] \<and> hdr_sequence_number buf = sequence_number ?s
           \<and> sequence_number ?s' = sequence_number ?s + 1)"
    by (simp add: step_emission_def)
  then show ?case
  proof
    assume "sent ?s' = sent ?s \<and> sequence_number ?s' = sequence_number ?s"
    with snoc.IH show ?thesis by simp
  next
    assume "\<exists>buf. sent ?s' = sent ?s @ [buf] \<and> hdr_sequence_number buf = sequence_number ?s
           \<and> sequence_number ?s' = sequence_number ?s + 1"
    then obtain buf where b: "sent ?s' = sent ?s @ [buf]"
      "hdr_sequence_number buf = sequence_number ?s"
      "sequence_number ?s' = sequence_number ?s + 1" by blast
    from snoc.IH b show ?thesis
      by (auto simp: nth_append less_Suc_eq)
  qed
qed

lemma stats_cb_sent_length:
  "length (sent (dnsflow_stats_cb ds rate s)) = Suc (length (sent s))"
proof -
  define s1 where "s1 = s\<lparr>stats_counter := stats_counter s + 1\<rparr>"
  define s2 where "s2 = (if stats_counter s1 mod 6 = 0 then dnsflow_print_stats ds s1 else s1)"
  have "only_logged s1 s2"
    by (simp add: s2_def print_stats_only_logged only_logged_refl)
  from only_logged_fields[OF this] have f: "sent s2 = sent s" by (simp add: s1_def)
  have "dnsflow_stats_cb ds rate s =
      dnsflow_pkt_send ([2, 1] @ be16 1 @ be32 (sequence_number s2)
          @ (be32 (captured ds) @ be32 (ps_recv ds) @ be32 (ps_drop ds)
          @ be32 (ps_ifdrop ds) @ be32 rate))
        (s2\<lparr>sequence_number := sequence_number s2 + 1\<rparr>)"
    by (simp add: dnsflow_stats_cb_def Let_def s1_def s2_def)
  then show ?thesis
    using f by (simp add: dnsflow_pkt_send_def)
qed

lemma run_stats_only_length:
  "length (sent (run cfg w2p (replicate n (Stats_timer ds rate)))) = n"
proof (induction n)
  case 0
  show ?case by (simp add: run_def init_worker_def)
next
  case (Suc n)
  have "replicate (Suc n) (Stats_timer ds rate) = replicate n (Stats_timer ds rate) @ [Stats_timer ds rate]"
    by (simp add: replicate_append_same)
  then show ?case
    using Suc by (simp add: run_snoc stats_cb_sent_length del: replicate_Suc)
qed


section \<open>A worked example: one captured response\<close>

text \<open>
  A frame as the capture adapter delivers it: the bytes \<open>bs\<close> from the IPv4 header on,
  \<open>length bs\<close> of them captured; what lies behind them in memory reads as 0.
\<close>

definition frame_mem :: "byte list \<Rightarrow> memory" where
  "frame_mem bs = (\<lambda>i. if i < length bs then bs ! i else 0)"

text \<open>
  The answer of 8.8.8.8 to 10.0.0.7 for \<^verbatim>\<open>example.com. A\<close>: 20 bytes of IPv4 header, 8 of UDP
  header, 45 of DNS message. The parser of the example knows this one message.
\<close>

definition example_dns_payload :: "byte list" where
  "example_dns_payload =
     [0x12, 0x34, 0x81, 0x80, 0x00, 0x01, 0x00, 0x01, 0x00, 0x00, 0x00, 0x00]
     @ example_com @ [0x00, 0x01, 0x00, 0x01]
     @ [0xc0, 0x0c, 0x00, 0x01, 0x00, 0x01, 0x00, 0x00, 0x0e, 0x10, 0x00, 0x04,
        0x5d, 0xb8, 0xd8, 0x22]"

definition example_frame :: "byte list" where
  "example_frame =
     [0x45, 0x00, 0x00, 0x49, 0x00, 0x00, 0x40, 0x00, 0x40, 0x11, 0x00, 0x00,
      0x08, 0x08, 0x08, 0x08, 0x0a, 0x00, 0x00, 0x07]
     @ [0x00, 0x35, 0xc0, 0x00, 0x00, 0x35, 0x00, 0x00]
     @ example_dns_payload"

definition example_lp :: ldns_pkt where
  "example_lp = \<lparr>pkt_qr = True, pkt_rd = True, pkt_ra = True, pkt_rcode = LDNS_RCODE_NOERROR,
     pkt_question = [\<lparr>rr_owner = example_com, rr_type = LDNS_RR_TYPE_A, rr_rdfs = []\<rparr>],
     pkt_answer = [\<lparr>rr_owner = example_com, rr_type = LDNS_RR_TYPE_A,
                    rr_rdfs = [[0x5d, 0xb8, 0xd8, 0x22]]\<rparr>]\<rparr>"

definition example_wire2pkt :: wire2pkt where
  "example_wire2pkt bs = (if take 45 bs = example_dns_payload then Inr example_lp
     else Inl ''Packet too short'')"

definition example_cfg :: config where
  "example_cfg = \<lparr>pcap_record_dst_port = 0, jmirror_dst_port = 30030\<rparr>"

definition example_stat :: dcap_stat where
  "example_stat = \<lparr>captured = 100, ps_valid = True, ps_recv = 120, ps_drop = 5, ps_ifdrop = 0\<rparr>"

lemma length_example_frame: "length example_frame = 73"
  by (simp add: example_frame_def example_dns_payload_def example_com_def)

lemma ex_decap: "dcap_cb_decap example_cfg 73 (frame_mem example_frame) = Some (0, 20, 28)"
  by (simp add: dcap_cb_decap_def ip_udp_check_def ip4_check_def udp4_check_def lt_sizeof_def
      ip_v_def ip_hl_def ip_len_def ip_p_def uh_ulen_def uh_dport_def from_be16_def load_bytes_def
      frame_mem_def example_frame_def example_dns_payload_def example_com_def example_cfg_def
      Let_def upt_rec)

lemma ex_ulen: "uh_ulen (frame_mem example_frame) 20 = 53"
  by (simp add: uh_ulen_def from_be16_def load_bytes_def frame_mem_def example_frame_def upt_rec)

lemma ex_payload: "take 45 (load_bytes (frame_mem example_frame) 28 53) = example_dns_payload"
  by (simp add: load_bytes_def frame_mem_def example_frame_def example_dns_payload_def
      example_com_def upt_rec)

lemma ex_dns_check:
  "dnsflow_dns_check example_wire2pkt 53 (frame_mem example_frame) 28 s = (Some example_lp, s)"
  by (simp add: dnsflow_dns_check_def example_wire2pkt_def ex_payload) (simp add: example_lp_def)

lemma ex_dns_extract: "dnsflow_dns_extract example_lp s = (Some example_response, s)"
  by (simp add: dnsflow_dns_extract_def example_lp_def extract_rr_def extract_rdf_def
      example_response_def example_com_def from_be32_def Let_def)

lemma ex_ip_dst: "ip_dst (frame_mem example_frame) 0 = 0x0a000007"
  by (simp add: ip_dst_def from_be32_def load_bytes_def frame_mem_def example_frame_def upt_rec)

lemma ex_dcap_cb:
  "dnsflow_dcap_cb example_cfg example_wire2pkt now 73 (frame_mem example_frame) s
     = dnsflow_pkt_build now 0x0a000007 example_response s"
  by (simp add: dnsflow_dcap_cb_def ex_decap ex_ulen ex_dns_check ex_dns_extract ex_ip_dst)

section \<open>Sequence numbers\<close>

lemma unat_of_nat_u32: "n < 4294967296 \<Longrightarrow> unat (of_nat n :: 32 word) = n"
  by (simp add: unat_of_nat take_bit_nat_eq_self)

text \<open>
  Claim C2, as amended. The counter of a worker starts at 1 and, whatever events the worker
  handles, equals 1 plus the number of buffers emitted so far, data and stats buffers
  alike; the buffer emitted in position \<open>i\<close> (from 0) carries \<open>i + 1\<close> as a 32-bit number,
  that is modulo \<open>2 ^ 32\<close>. So the first buffer carries 1, and of two buffers the later
  carries the strictly greater number as long as it is among the first \<open>2 ^ 32 - 1\<close>.
\<close>

theorem C2_sequence_numbers:
  "sequence_number init_worker = 1
   \<and> sequence_number (run cfg w2p evs) = 1 + of_nat (length (sent (run cfg w2p evs)))
   \<and> (\<forall>i<length (sent (run cfg w2p evs)).
         hdr_sequence_number (sent (run cfg w2p evs) ! i) = of_nat (i + 1))
   \<and> (\<forall>i j. i < j \<and> j < length (sent (run cfg w2p evs)) \<and> j < 2 ^ 32 - 1 \<longrightarrow>
         hdr_sequence_number (sent (run cfg w2p evs) ! i)
           < hdr_sequence_number (sent (run cfg w2p evs) ! j))"
proof -
  let ?out = "sent (run cfg w2p evs)"
  note rs = run_sequence[of cfg w2p evs]
  have "hdr_sequence_number (?out ! i) < hdr_sequence_number (?out ! j)"
    if "i < j" "j < length ?out" "j < 2 ^ 32 - 1" for i j
  proof -
    from that rs have hi: "hdr_sequence_number (?out ! i) = of_nat (i + 1)"
      and hj: "hdr_sequence_number (?out ! j) = of_nat (j + 1)"
      by simp_all
    from that have bi: "i + 1 < 4294967296" and bj: "j + 1 < 4294967296" by simp_all
    have "unat (hdr_sequence_number (?out ! i)) = i + 1"
      unfolding hi by (rule unat_of_nat_u32[OF bi])
    moreover have "unat (hdr_sequence_number (?out ! j)) = j + 1"
      unfolding hj by (rule unat_of_nat_u32[OF bj])
    ultimately have "unat (hdr_sequence_number (?out ! i)) < unat (hdr_sequence_number (?out ! j))"
      using that(1) by simp
    then show ?thesis
      by (simp only: word_less_nat_alt)
  qed
  with rs show ?thesis by (simp add: init_worker_def)
qed

definition example_events :: "event list" where
  "example_events = [Captured 0 73 (frame_mem example_frame), Push_timer 1,
     Stats_timer example_stat 4]"

lemma ex_build_fields:
  "db_len (dnsflow_pkt_build 0 0x0a000007 example_response init_worker) = 36
   \<and> last_send (dnsflow_pkt_build 0 0x0a000007 example_response init_worker) = 0
   \<and> sent (dnsflow_pkt_build 0 0x0a000007 example_response init_worker) = []"
  by (simp add: dnsflow_pkt_build_def new_pkt_def build_set_def init_worker_def 
      example_response_def example_com_def pad_names_closed pad_count_def Let_def
      dnsflow_pkt_send_data_def store_bytes_def)

lemma ex_run_sent_length:
  "length (sent (run example_cfg example_wire2pkt example_events)) = 2"
  by (simp add: run_def example_events_def ex_dcap_cb dnsflow_push_cb_def ex_build_fields
      send_data_nonempty stats_cb_sent_length)

theorem C2_sequence_numbers_witness:
  "length (sent (run example_cfg example_wire2pkt example_events)) = 2
   \<and> hdr_sequence_number (sent (run example_cfg example_wire2pkt example_events) ! 0) = 1
   \<and> hdr_sequence_number (sent (run example_cfg example_wire2pkt example_events) ! 1) = 2
   \<and> hdr_sequence_number (sent (run example_cfg example_wire2pkt example_events) ! 0)
       < hdr_sequence_number (sent (run example_cfg example_wire2pkt example_events) ! 1)
   \<and> sequence_number (run example_cfg example_wire2pkt example_events) = 3"
proof -
  note c = C2_sequence_numbers[of example_cfg example_wire2pkt example_events,
      unfolded ex_run_sent_length]
  from c have a: "\<forall>i<2. hdr_sequence_number
      (sent (run example_cfg example_wire2pkt example_events) ! i) = of_nat (i + 1)"
    by blast
  from c have b: "\<forall>i j. i < j \<and> j < 2 \<and> j < (2::nat) ^ 32 - 1 \<longrightarrow>
      hdr_sequence_number (sent (run example_cfg example_wire2pkt example_events) ! i)
        < hdr_sequence_number (sent (run example_cfg example_wire2pkt example_events) ! j)"
    by blast
  from a have a0: "hdr_sequence_number
      (sent (run example_cfg example_wire2pkt example_events) ! 0) = 1"
    and a1: "hdr_sequence_number
      (sent (run example_cfg example_wire2pkt example_events) ! 1) = 2"
    by simp_all
  from b have b01: "hdr_sequence_number
      (sent (run example_cfg example_wire2pkt example_events) ! 0)
      < hdr_sequence_number (sent (run example_cfg example_wire2pkt example_events) ! 1)"
    by simp
  from c have "sequence_number (run example_cfg example_wire2pkt example_events) = 3"
    by simp
  with a0 a1 b01 ex_run_sent_length show ?thesis by simp
qed

text \<open>
  The counter is a \<^verbatim>\<open>uint32_t\<close> and wraps: of \<open>2 ^ 32\<close> stats buffers the last but one
  carries \<open>2 ^ 32 - 1\<close> and the last carries 0, which is not greater.
\<close>

theorem C2_strictly_greater_counterexample:
  "length (sent (run example_cfg example_wire2pkt
       (replicate 4294967296 (Stats_timer example_stat 4)))) = 4294967296
   \<and> hdr_sequence_number (sent (run example_cfg example_wire2pkt
       (replicate 4294967296 (Stats_timer example_stat 4))) ! 4294967294) = 4294967295
   \<and> hdr_sequence_number (sent (run example_cfg example_wire2pkt
       (replicate 4294967296 (Stats_timer example_stat 4))) ! 4294967295) = 0
   \<and> \<not> hdr_sequence_number (sent (run example_cfg example_wire2pkt
         (replicate 4294967296 (Stats_timer example_stat 4))) ! 4294967294)
       < hdr_sequence_number (sent (run example_cfg example_wire2pkt
         (replicate 4294967296 (Stats_timer example_stat 4))) ! 4294967295)"
proof -
  let ?evs = "replicate 4294967296 (Stats_timer example_stat 4)"
  let ?out = "sent (run example_cfg example_wire2pkt ?evs)"
  have len: "length ?out = 4294967296" by (rule run_stats_only_length)
  note rs = run_sequence[of example_cfg example_wire2pkt ?evs, unfolded len, THEN conjunct2]
  then have all: "\<forall>i<4294967296. hdr_sequence_number (?out ! i) = of_nat (i + 1)" .
  from all have a: "hdr_sequence_number (?out ! 4294967294) = 4294967295" by simp
  from all have b: "hdr_sequence_number (?out ! 4294967295) = 0" by simp
  from len a b show ?thesis by simp
qed


section \<open>The overflow guard\<close>

text \<open>
  In the words of the specification: copying one of the names the append copies would
  take the buffer past its 65535 bytes. \<open>i\<close> is the index of the name and the length of
  the buffer before the copy is where the names start plus the names copied before.
\<close>

definition copy_would_exceed :: "dns_data_set \<Rightarrow> worker \<Rightarrow> bool" where
  "copy_would_exceed dns_data s \<longleftrightarrow>
     (\<exists>i<min (length (names dns_data)) DNSFLOW_NAMES_COUNT_MAX.
        DNSFLOW_PKT_MAX_SIZE
          < set_start s + sizeof_dnsflow_set_hdr + length (concat (take i (names dns_data)))
            + length (names dns_data ! i))"

lemma concat_take_prefix_le:
  assumes "i < n" and "i < length xs"
  shows "length (concat (take i xs)) + length (xs ! i) \<le> length (concat (take n xs))"
proof -
  from assms have l: "i < length (take n xs)" by simp
  have "take n xs = take i (take n xs) @ (take n xs) ! i # drop (Suc i) (take n xs)"
    by (rule id_take_nth_drop[OF l])
  also from assms have "take i (take n xs) = take i xs" by (simp add: min_def)
  also from assms have "(take n xs) ! i = xs ! i" by simp
  finally have "concat (take n xs)
      = concat (take i xs @ xs ! i # drop (Suc i) (take n xs))" by simp
  then show ?thesis by simp
qed

lemma copy_would_exceed_discarded:
  assumes inv: "batcher_inv s" and ex: "copy_would_exceed d s"
  shows "append_discarded cip d s"
proof -
  from ex obtain i where i: "i < min (length (names d)) 255"
    and big: "65535 < set_start s + 8 + length (concat (take i (names d))) + length (names d ! i)"
    by (auto simp: copy_would_exceed_def)
  from i have "length (concat (take i (names d))) + length (names d ! i)
      \<le> length (names_bytes d)"
    unfolding names_bytes_def by (intro concat_take_prefix_le) simp_all
  with big have "65534 < set_start s + 8 + length (names_bytes d)" by simp
  then show ?thesis by (simp add: append_discarded_iff[OF inv])
qed

lemma pkt_build_abandon:
  assumes inv: "batcher_inv s"
    and less: "db_len (dnsflow_pkt_build now cip d s) < db_len s"
    and same: "sent (dnsflow_pkt_build now cip d s) = sent s"
  shows "logged (dnsflow_pkt_build now cip d s) = logged s @ [''Pkt create error'']"
proof (cases "append_discarded cip d s")
  case True
  from pkt_build_discarded[OF True, of now] obtain m where
    "dnsflow_pkt_build now cip d s
       = s\<lparr>pkt := m, logged := logged s @ [''Pkt create error''], db_len := 0\<rparr>" ..
  then show ?thesis by simp
next
  case False
  let ?S = "dnsflow_pkt_build now cip d s"
  have alt: "(db_len ?S = set_end d s \<and> set_end d s < 1200
        \<and> pkt ?S 1 \<noteq> 255 \<and> sent ?S = sent s
        \<and> sequence_number ?S = sequence_number s)
      \<or> (db_len ?S = 0
        \<and> sent ?S = sent s @ [load_bytes (pkt ?S) 0 (set_end d s)]
        \<and> load_bytes (pkt ?S) 4 4 = be32 (sequence_number s)
        \<and> sequence_number ?S = sequence_number s + 1
        \<and> (1200 \<le> set_end d s \<or> pkt ?S 1 = 255))"
    using pkt_build_appended[OF inv False, of now] by (elim exE conjE)
  have le: "db_len s \<le> set_end d s" by (simp add: set_end_def set_start_cases)
  from alt show ?thesis
  proof
    assume "db_len ?S = set_end d s \<and> set_end d s < 1200
        \<and> pkt ?S 1 \<noteq> 255 \<and> sent ?S = sent s
        \<and> sequence_number ?S = sequence_number s"
    with le less show ?thesis by simp
  next
    assume "db_len ?S = 0
        \<and> sent ?S = sent s @ [load_bytes (pkt ?S) 0 (set_end d s)]
        \<and> load_bytes (pkt ?S) 4 4 = be32 (sequence_number s)
        \<and> sequence_number ?S = sequence_number s + 1
        \<and> (1200 \<le> set_end d s \<or> pkt ?S 1 = 255)"
    with same show ?thesis by simp
  qed
qed

lemma step_abandon:
  assumes inv: "batcher_inv s"
    and less: "db_len (step cfg w2p e s) < db_len s"
    and same: "sent (step cfg w2p e s) = sent s"
  shows "\<exists>l. logged (step cfg w2p e s) = l @ [''Pkt create error'']"
proof (cases e)
  case (Captured now pkt_len ip_pkt)
  from dcap_cb_cases[of s cfg w2p now pkt_len ip_pkt] show ?thesis
  proof
    assume "only_logged s (dnsflow_dcap_cb cfg w2p now pkt_len ip_pkt s)"
    from only_logged_fields[OF this] less Captured show ?thesis by simp
  next
    assume "\<exists>s1 ip d. only_logged s s1
      \<and> dnsflow_dcap_cb cfg w2p now pkt_len ip_pkt s = dnsflow_pkt_build now ip d s1"
    then obtain s1 ip d where o: "only_logged s s1"
      and b: "dnsflow_dcap_cb cfg w2p now pkt_len ip_pkt s = dnsflow_pkt_build now ip d s1"
      by blast
    from only_logged_fields[OF o] have f: "db_len s1 = db_len s" "sent s1 = sent s" by simp_all
    from pkt_build_abandon[OF batcher_inv_only_logged[OF o inv], of now ip d] less same
    show ?thesis
      unfolding Captured by (simp add: b f)
  qed
next
  case (Push_timer now)
  show ?thesis
  proof (cases "db_len s = 0")
    case True
    with less show ?thesis by simp
  next
    case False
    show ?thesis
    proof (cases "now - last_send s \<ge> 1")
      case True
      with same Push_timer False show ?thesis
        by (simp add: dnsflow_push_cb_def send_data_nonempty)
    next
      case False
      with less Push_timer show ?thesis by (simp add: dnsflow_push_cb_def)
    qed
  qed
next
  case (Stats_timer ds rate)
  have "length (sent (dnsflow_stats_cb ds rate s)) = Suc (length (sent s))"
    by (rule stats_cb_sent_length)
  with same Stats_timer show ?thesis by simp
qed

text \<open>
  Claim C6. If copying a name during an append would exceed the 65535-byte cap, the append
  sets \<open>db_len\<close> to 0, logs one warning, emits nothing and leaves the sequence number
  alone (the guard of the code is \<open>name_len > 65534 - db_len\<close>, so it fires in that case,
  and also when the copy would fill the buffer exactly). And this is the only way a buffer
  is dropped: whenever an event of the worker leaves fewer bytes buffered than it found
  and emits nothing, the last thing it did was to log that warning.
\<close>

theorem C6_overflow_guard:
  assumes "batcher_inv s"
  shows "(copy_would_exceed dns_data s \<longrightarrow>
            db_len (dnsflow_pkt_build now client_ip dns_data s) = 0
          \<and> logged (dnsflow_pkt_build now client_ip dns_data s) = logged s @ [''Pkt create error'']
          \<and> sent (dnsflow_pkt_build now client_ip dns_data s) = sent s
          \<and> sequence_number (dnsflow_pkt_build now client_ip dns_data s) = sequence_number s)
     \<and> (db_len (step cfg w2p e s) < db_len s \<and> sent (step cfg w2p e s) = sent s \<longrightarrow>
          (\<exists>l. logged (step cfg w2p e s) = l @ [''Pkt create error'']))"
proof (intro conjI impI)
  assume "copy_would_exceed dns_data s"
  then have "append_discarded client_ip dns_data s"
    by (rule copy_would_exceed_discarded[OF assms])
  from pkt_build_discarded[OF this, of now] obtain m where
    r: "dnsflow_pkt_build now client_ip dns_data s
       = s\<lparr>pkt := m, logged := logged s @ [''Pkt create error''], db_len := 0\<rparr>" ..
  show "db_len (dnsflow_pkt_build now client_ip dns_data s) = 0"
    and "logged (dnsflow_pkt_build now client_ip dns_data s) = logged s @ [''Pkt create error'']"
    and "sent (dnsflow_pkt_build now client_ip dns_data s) = sent s"
    and "sequence_number (dnsflow_pkt_build now client_ip dns_data s) = sequence_number s"
    by (simp_all add: r)
next
  assume "db_len (step cfg w2p e s) < db_len s \<and> sent (step cfg w2p e s) = sent s"
  then show "\<exists>l. logged (step cfg w2p e s) = l @ [''Pkt create error'']"
    using step_abandon[OF assms] by blast
qed

text \<open>
  A response at the limits of \<^verbatim>\<open>dnsflow_dns_extract\<close>: a question name of 255 bytes (three
  labels of 63 bytes and one of 61), 254 CNAME records with such a target and 255 A
  records. \<open>full_worker\<close> has a buffer of 1196 bytes, just under the target size.
\<close>

definition long_name :: "byte list" where
  "long_name = concat (replicate 3 (63 # replicate 63 0x61)) @ (61 # replicate 61 0x61) @ [0]"

definition big_response :: dns_data_set where
  "big_response = \<lparr>names = replicate 255 long_name, ips = replicate 255 0x5db8d822\<rparr>"

definition big_lp :: ldns_pkt where
  "big_lp = \<lparr>pkt_qr = True, pkt_rd = True, pkt_ra = True, pkt_rcode = LDNS_RCODE_NOERROR,
     pkt_question = [\<lparr>rr_owner = long_name, rr_type = LDNS_RR_TYPE_A, rr_rdfs = []\<rparr>],
     pkt_answer =
       replicate 254 \<lparr>rr_owner = long_name, rr_type = LDNS_RR_TYPE_CNAME, rr_rdfs = [long_name]\<rparr>
       @ replicate 255 \<lparr>rr_owner = long_name, rr_type = LDNS_RR_TYPE_A,
                          rr_rdfs = [[0x5d, 0xb8, 0xd8, 0x22]]\<rparr>\<rparr>"

definition big_wire2pkt :: wire2pkt where
  "big_wire2pkt bs = Inr big_lp"

definition full_worker :: worker where
  "full_worker = init_worker\<lparr>db_len := 1196\<rparr>"

lemma length_long_name: "length long_name = 255"
  by (simp add: long_name_def length_concat sum_list_replicate)

lemma length_big_names: "length (names_bytes big_response) = 65025"
  by (simp add: names_bytes_def big_response_def length_concat length_long_name
      sum_list_replicate)

lemma fold_extract_cname:
  "length (names d) + n \<le> 255 \<Longrightarrow> length t \<le> 255 \<Longrightarrow>
     fold extract_rr (replicate n \<lparr>rr_owner = ow, rr_type = LDNS_RR_TYPE_CNAME, rr_rdfs = [t]\<rparr>) (d, s)
       = (d\<lparr>names := names d @ replicate n t\<rparr>, s)"
proof (induction n arbitrary: d)
  case 0
  show ?case by (simp del: fold_replicate)
next
  case (Suc n)
  from Suc.prems have "length (names (d\<lparr>names := names d @ [t]\<rparr>)) + n \<le> 255" by simp
  from Suc.IH[OF this Suc.prems(2)] Suc.prems show ?case
    by (simp add: extract_rr_def extract_rdf_def replicate_app_Cons_same del: fold_replicate)
qed

lemma fold_extract_a:
  "length (ips d) + n \<le> 255 \<Longrightarrow>
     fold extract_rr (replicate n \<lparr>rr_owner = ow, rr_type = LDNS_RR_TYPE_A, rr_rdfs = [r]\<rparr>) (d, s)
       = (d\<lparr>ips := ips d @ replicate n (from_be32 r)\<rparr>, s)"
proof (induction n arbitrary: d)
  case 0
  show ?case by (simp del: fold_replicate)
next
  case (Suc n)
  from Suc.prems have "length (ips (d\<lparr>ips := ips d @ [from_be32 r]\<rparr>)) + n \<le> 255" by simp
  from Suc.IH[OF this] Suc.prems show ?case
    by (simp add: extract_rr_def extract_rdf_def replicate_app_Cons_same del: fold_replicate)
qed

lemma big_dns_extract: "dnsflow_dns_extract big_lp s = (Some big_response, s)"
proof -
  have a: "from_be32 [0x5d, 0xb8, 0xd8, 0x22] = (0x5db8d822 :: 32 word)"
    by (simp add: from_be32_def)
  have c: "fold extract_rr
      (replicate 254 \<lparr>rr_owner = long_name, rr_type = LDNS_RR_TYPE_CNAME, rr_rdfs = [long_name]\<rparr>)
      (\<lparr>names = [long_name], ips = []\<rparr>, s)
      = (\<lparr>names = [long_name] @ replicate 254 long_name, ips = []\<rparr>, s)"
    using fold_extract_cname[of "\<lparr>names = [long_name], ips = []\<rparr>" 254 long_name long_name s]
    by (simp add: length_long_name del: fold_replicate)
  have i: "fold extract_rr
      (replicate 255 \<lparr>rr_owner = long_name, rr_type = LDNS_RR_TYPE_A,
                          rr_rdfs = [[0x5d, 0xb8, 0xd8, 0x22]]\<rparr>)
      (\<lparr>names = [long_name] @ replicate 254 long_name, ips = []\<rparr>, s)
      = (\<lparr>names = [long_name] @ replicate 254 long_name,
          ips = replicate 255 0x5db8d822\<rparr>, s)"
    using fold_extract_a[of "\<lparr>names = [long_name] @ replicate 254 long_name, ips = []\<rparr>" 255
        long_name "[0x5d, 0xb8, 0xd8, 0x22]" s]
    by (simp add: a del: fold_replicate)
  have "fold extract_rr (pkt_answer big_lp) (\<lparr>names = [long_name], ips = []\<rparr>, s)
      = (\<lparr>names = [long_name] @ replicate 254 long_name,
          ips = replicate 255 0x5db8d822\<rparr>, s)"
    using c i by (simp add: big_lp_def del: fold_replicate)
  moreover have "rr_owner (pkt_question big_lp ! 0) = long_name"
    by (simp add: big_lp_def)
  moreover have "long_name # replicate 254 long_name = replicate (Suc 254) long_name"
    by (simp only: replicate_Suc)
  ultimately show ?thesis
    by (simp add: dnsflow_dns_extract_def length_long_name big_response_def
        del: fold_replicate replicate_Suc)
qed

lemma batcher_inv_full: "batcher_inv full_worker"
  by (simp add: batcher_inv_def full_worker_def init_worker_def)

lemma big_would_exceed: "copy_would_exceed big_response full_worker"
proof -
  have "length (concat (take 254 (replicate 255 long_name))) = 64770"
    by (simp add: length_concat length_long_name sum_list_replicate)
  then have "(254::nat) < min (length (names big_response)) 255
      \<and> 65535 < set_start full_worker + 8 + length (concat (take 254 (names big_response)))
          + length (names big_response ! 254)"
    by (simp add: big_response_def set_start_cases full_worker_def init_worker_def
        length_long_name)
  then show ?thesis
    unfolding copy_would_exceed_def by (intro exI[of _ 254])
qed

lemma big_dns_check:
  "dnsflow_dns_check big_wire2pkt n p a s = (Some big_lp, s)"
  by (simp add: dnsflow_dns_check_def big_wire2pkt_def) (simp add: big_lp_def)

lemma big_dcap_cb:
  "dnsflow_dcap_cb example_cfg big_wire2pkt now 73 (frame_mem example_frame) s
     = dnsflow_pkt_build now 0x0a000007 big_response s"
  by (simp add: dnsflow_dcap_cb_def ex_decap big_dns_check big_dns_extract ex_ip_dst)

theorem C6_overflow_guard_witness:
  "batcher_inv full_worker
   \<and> copy_would_exceed big_response full_worker
   \<and> db_len (dnsflow_pkt_build 0 0x0a000007 big_response full_worker) = 0
   \<and> logged (dnsflow_pkt_build 0 0x0a000007 big_response full_worker) = [''Pkt create error'']
   \<and> sent (dnsflow_pkt_build 0 0x0a000007 big_response full_worker) = []
   \<and> sequence_number (dnsflow_pkt_build 0 0x0a000007 big_response full_worker) = 1
   \<and> db_len (step example_cfg big_wire2pkt (Captured 0 73 (frame_mem example_frame)) full_worker)
       < db_len full_worker
   \<and> sent (step example_cfg big_wire2pkt (Captured 0 73 (frame_mem example_frame)) full_worker)
       = sent full_worker
   \<and> (\<exists>l. logged (step example_cfg big_wire2pkt (Captured 0 73 (frame_mem example_frame))
              full_worker) = l @ [''Pkt create error''])"
proof -
  note c = C6_overflow_guard[OF batcher_inv_full, of big_response 0 "0x0a000007"
      example_cfg big_wire2pkt "Captured 0 73 (frame_mem example_frame)"]
  from c big_would_exceed
  have a: "db_len (dnsflow_pkt_build 0 0x0a000007 big_response full_worker) = 0
     \<and> logged (dnsflow_pkt_build 0 0x0a000007 big_response full_worker)
         = logged full_worker @ [''Pkt create error'']
     \<and> sent (dnsflow_pkt_build 0 0x0a000007 big_response full_worker) = sent full_worker
     \<and> sequence_number (dnsflow_pkt_build 0 0x0a000007 big_response full_worker)
         = sequence_number full_worker"
    by blast
  have st: "step example_cfg big_wire2pkt (Captured 0 73 (frame_mem example_frame)) full_worker
      = dnsflow_pkt_build 0 0x0a000007 big_response full_worker"
    by (simp add: big_dcap_cb)
  have f: "db_len full_worker = 1196" "logged full_worker = []" "sent full_worker = []"
    "sequence_number full_worker = 1"
    by (simp_all add: full_worker_def init_worker_def)
  from a have h: "db_len (step example_cfg big_wire2pkt (Captured 0 73 (frame_mem example_frame))
        full_worker) < db_len full_worker
      \<and> sent (step example_cfg big_wire2pkt (Captured 0 73 (frame_mem example_frame))
        full_worker) = sent full_worker"
    unfolding st by (simp add: f)
  with c have "\<exists>l. logged (step example_cfg big_wire2pkt
      (Captured 0 73 (frame_mem example_frame)) full_worker) = l @ [''Pkt create error'']"
    by blast
  with a h batcher_inv_full big_would_exceed show ?thesis
    by (simp add: f)
qed


section \<open>Writes past the end of the buffer\<close>

lemma big_not_discarded: "\<not> append_discarded c big_response init_worker"
  unfolding append_discarded_iff[OF batcher_inv_init]
  by (simp add: set_start_cases length_big_names) (simp add: init_worker_def)

lemma set_start_init: "set_start init_worker = 8"
  by (simp add: set_start_cases init_worker_def)

lemma length_big_ips: "length (ips_bytes big_response) = 1020"
  by (simp add: length_ips_bytes big_response_def)

lemma big_names_len: "names_len_of 8 big_response = 65028"
  by (simp add: names_len_of_def length_big_names pad_count_def)

lemma big_set_end: "set_end big_response init_worker = 66064"
  by (simp add: set_end_def set_start_init big_names_len length_big_ips)

lemma drop_load_bytes: "drop k (load_bytes m a (k + n)) = load_bytes m (a + k) n"
  by (simp add: load_bytes_add)

lemma big_ips_tail: "drop 1016 (ips_bytes big_response) = [0x5d, 0xb8, 0xd8, 0x22]"
proof -
  have "replicate (254 + 1) (0x5db8d822 :: 32 word) = replicate 254 0x5db8d822 @ [0x5db8d822]"
    by (simp only: replicate_add) simp
  then have "ips_bytes big_response
      = concat (map be32 (replicate 254 0x5db8d822)) @ be32 0x5db8d822"
    by (simp add: ips_bytes_def big_response_def)
  moreover have "length (concat (map be32 (replicate 254 (0x5db8d822 :: 32 word)))) = 1016"
    by (simp add: length_concat sum_list_replicate)
  ultimately show ?thesis by (simp add: be32_def)
qed

text \<open>
  Claim C10 fails on the code. The guard of \<^verbatim>\<open>dnsflow_pkt_build\<close> protects the copy of the
  names only; the padding loop and the address loop store without a check (the source
  says so itself: \<^verbatim>\<open>XXX Need more care to prevent buffer overruns\<close>). Starting from the
  empty buffer, the response with 255 names of 255 bytes and 255 addresses passes the
  guard (the names end at offset 65041), and the append then stores the last address at
  offsets 66060 to 66063, beyond the 65535 bytes of the buffer, and hands a buffer of
  66064 bytes to the emitter.
\<close>

theorem C10_write_past_capacity:
  "\<not> append_discarded 0x0a000007 big_response init_worker
   \<and> map length (sent (dnsflow_pkt_build 0 0x0a000007 big_response init_worker)) = [66064]
   \<and> load_bytes (pkt (dnsflow_pkt_build 0 0x0a000007 big_response init_worker)) 66060 4
       = [0x5d, 0xb8, 0xd8, 0x22]
   \<and> load_bytes (pkt init_worker) 66060 4 = [0, 0, 0, 0]
   \<and> DNSFLOW_PKT_MAX_SIZE \<le> 66060"
proof -
  let ?S = "dnsflow_pkt_build 0 0x0a000007 big_response init_worker"
  have nd: "\<not> append_discarded 0x0a000007 big_response init_worker"
    by (rule big_not_discarded)
  note st = set_start_init
  have fits: "set_start init_worker + 8 + length (names_bytes big_response) \<le> 65534"
    by (simp add: st length_big_names)
  from pkt_build_appended[OF batcher_inv_init nd, of 0] obtain m' where
    bs: "build_set 0x0a000007 big_response (set_start init_worker) (snd (new_pkt init_worker))
          = Inr (set_end big_response init_worker, m')"
    and agree: "\<forall>i\<ge>8. pkt ?S i = m' i"
    and alt: "(db_len ?S = set_end big_response init_worker
          \<and> set_end big_response init_worker < 1200
          \<and> pkt ?S 1 \<noteq> 255 \<and> sent ?S = sent init_worker
          \<and> sequence_number ?S = sequence_number init_worker)
        \<or> (db_len ?S = 0
          \<and> sent ?S = sent init_worker @ [load_bytes (pkt ?S) 0 (set_end big_response init_worker)]
          \<and> load_bytes (pkt ?S) 4 4 = be32 (sequence_number init_worker)
          \<and> sequence_number ?S = sequence_number init_worker + 1
          \<and> (1200 \<le> set_end big_response init_worker \<or> pkt ?S 1 = 255))"
    by blast
  have e: "sent init_worker = []" by (simp add: init_worker_def)
  from alt have sent: "sent ?S = [load_bytes (pkt ?S) 0 66064]"
    unfolding big_set_end e by simp
  from build_set_layout[OF fits, of "0x0a000007" "snd (new_pkt init_worker)"] bs
  have "load_bytes m' (set_start init_worker + 8 + names_len_of (set_start init_worker) big_response)
      (length (ips_bytes big_response)) = ips_bytes big_response"
    by auto
  then have ir: "load_bytes m' 65044 (1016 + 4) = ips_bytes big_response"
    by (simp add: st big_names_len length_big_ips)
  have "load_bytes m' 66060 4 = drop 1016 (load_bytes m' 65044 (1016 + 4))"
    by (simp only: drop_load_bytes) simp
  then have "load_bytes m' 66060 4 = [0x5d, 0xb8, 0xd8, 0x22]"
    by (simp only: ir big_ips_tail)
  moreover have "load_bytes (pkt ?S) 66060 4 = load_bytes m' 66060 4"
    by (rule load_agree[OF agree]) simp
  moreover have "load_bytes (pkt init_worker) 66060 4 = [0, 0, 0, 0]"
    by (simp add: init_worker_def load_bytes_def upt_rec)
  ultimately show ?thesis
    using nd sent by simp
qed


section \<open>The outer checks of the decapsulator\<close>

text \<open>
  What \<^verbatim>\<open>ip4_check\<close> and \<^verbatim>\<open>udp4_check\<close> demand of a frame, as one flat condition: at least
  20 bytes captured, version 4, the header length (4 times the IHL field) within the
  captured length, the total length within the captured length and not below the header
  length, protocol UDP, at least 28 bytes captured, and header length plus UDP length
  within the captured length.
\<close>

definition outer_checks :: "int \<Rightarrow> memory \<Rightarrow> bool" where
  "outer_checks pkt_len p \<longleftrightarrow>
     int sizeof_ip \<le> pkt_len
     \<and> ip_v p 0 = IPVERSION
     \<and> int (ip_hl p 0 * 4) \<le> pkt_len
     \<and> int (ip_len p 0) \<le> pkt_len
     \<and> ip_hl p 0 * 4 \<le> ip_len p 0
     \<and> ip_p p 0 = IPPROTO_UDP
     \<and> int (sizeof_ip + sizeof_udphdr) \<le> pkt_len
     \<and> int (ip_hl p 0 * 4 + uh_ulen p (ip_hl p 0 * 4)) \<le> pkt_len"

text \<open>
  The condition in the words of the specification, which asks for a header length of at
  least 20 bytes.
\<close>

definition outer_checks_claimed :: "int \<Rightarrow> memory \<Rightarrow> bool" where
  "outer_checks_claimed pkt_len p \<longleftrightarrow>
     ip_v p 0 = 4
     \<and> 20 \<le> ip_hl p 0 * 4 \<and> int (ip_hl p 0 * 4) \<le> pkt_len
     \<and> int (ip_len p 0) \<le> pkt_len \<and> ip_hl p 0 * 4 \<le> ip_len p 0
     \<and> ip_p p 0 = 17
     \<and> int (ip_hl p 0 * 4 + 8) \<le> pkt_len
     \<and> int (ip_hl p 0 * 4 + uh_ulen p (ip_hl p 0 * 4)) \<le> pkt_len
     \<and> int (uh_ulen p (ip_hl p 0 * 4)) \<le> pkt_len"



lemma ip_udp_check_result:
  "ip_udp_check pkt_len p ip_pkt = Some r \<Longrightarrow>
     r = (ip_pkt, ip_pkt + ip_hl p ip_pkt * 4, ip_pkt + ip_hl p ip_pkt * 4 + 8)"
  by (auto simp: ip_udp_check_def ip4_check_def udp4_check_def Let_def
      split: option.splits if_splits)


lemma outer_checks_claimed_imp: "outer_checks_claimed pkt_len p \<Longrightarrow> outer_checks pkt_len p"
  by (simp add: outer_checks_claimed_def outer_checks_def)





lemma dns_check_args_length:
  "dns_check_args cfg pkt_len p = Some (dns_pkt, n) \<Longrightarrow>
     \<exists>ip udphdr. dcap_cb_decap cfg pkt_len p = Some (ip, udphdr, dns_pkt)
       \<and> n = uh_ulen p udphdr"
  by (auto simp: dns_check_args_def split: option.splits)

lemma dcap_cb_uses_dns_check_args:
  "dns_check_args cfg pkt_len p = None \<Longrightarrow> dnsflow_dcap_cb cfg w2p now pkt_len p s = s"
  by (auto simp: dns_check_args_def dnsflow_dcap_cb_def split: option.splits)

text \<open>
  Claim C8 fails on the code in its first half. \<^verbatim>\<open>dnsflow_dcap_cb\<close> calls
  \<^verbatim>\<open>dnsflow_dns_check(ntohs(udphdr->uh_ulen), udp_data)\<close>: the parser starts at the UDP
  payload but is given the whole UDP length, header included, 8 bytes more than the
  payload. For the example frame (73 bytes captured, DNS message of 45 bytes at offset
  28, UDP length 53) the parser is told to read 53 bytes from offset 28, up to offset 81.
  The second half holds: the client address is the destination of the innermost header.
\<close>

theorem C8_dns_length_includes_udp_header:
  "dns_check_args example_cfg 73 (frame_mem example_frame) = Some (28, 53)
   \<and> uh_ulen (frame_mem example_frame) 20 = 53
   \<and> uh_ulen (frame_mem example_frame) 20 - sizeof_udphdr = 45
   \<and> length example_frame = 73
   \<and> drop 28 example_frame = example_dns_payload
   \<and> length example_dns_payload = 45
   \<and> ip_dst (frame_mem example_frame) 0 = 0x0a000007"
  by (simp add: dns_check_args_def ex_decap ex_ulen ex_ip_dst length_example_frame)
     (simp add: example_frame_def example_dns_payload_def example_com_def)


section \<open>The DNS decoder\<close>

text \<open>
  Claim C3. \<^verbatim>\<open>dnsflow_dns_check\<close> returns the message \<open>lp\<close> if and only if the payload
  parses as \<open>lp\<close> and \<open>lp\<close> has QR, RD and RA set, rcode NOERROR, one question, and that
  question of type A. When the payload does not parse, nothing is returned and the one
  line \<^verbatim>\<open>Bad DNS pkt: \<close> followed by the text of the parse error is logged. When it
  parses, nothing is logged whether the message is accepted or not, and the result is
  that message or nothing.
\<close>

theorem C3_dns_check:
  "(fst (dnsflow_dns_check w2p n p a s) = Some lp \<longleftrightarrow>
      w2p (load_bytes p a n) = Inr lp
      \<and> pkt_qr lp \<and> pkt_rd lp \<and> pkt_ra lp \<and> pkt_rcode lp = LDNS_RCODE_NOERROR
      \<and> length (pkt_question lp) = 1
      \<and> rr_type (pkt_question lp ! 0) = LDNS_RR_TYPE_A)
   \<and> (w2p (load_bytes p a n) = Inl errorstr \<longrightarrow>
        dnsflow_dns_check w2p n p a s = (None, log_line (''Bad DNS pkt: '' @ errorstr) s))
   \<and> (w2p (load_bytes p a n) = Inr lp' \<longrightarrow>
        snd (dnsflow_dns_check w2p n p a s) = s
        \<and> (fst (dnsflow_dns_check w2p n p a s) = None
             \<or> fst (dnsflow_dns_check w2p n p a s) = Some lp'))"
  by (cases "w2p (load_bytes p a n)") (auto simp: dnsflow_dns_check_def)

text \<open>A parser that yields the example message with rcode SERVFAIL (2).\<close>

definition servfail_wire2pkt :: wire2pkt where
  "servfail_wire2pkt bs = Inr (example_lp\<lparr>pkt_rcode := LDNS_RCODE_OTHER 2\<rparr>)"

theorem C3_dns_check_witness:
  "dnsflow_dns_check example_wire2pkt 53 (frame_mem example_frame) 28 init_worker
     = (Some example_lp, init_worker)
   \<and> example_wire2pkt (load_bytes (frame_mem example_frame) 28 53) = Inr example_lp
   \<and> example_wire2pkt (load_bytes (frame_mem example_frame) 28 12) = Inl ''Packet too short''
   \<and> dnsflow_dns_check example_wire2pkt 12 (frame_mem example_frame) 28 init_worker
     = (None, log_line ''Bad DNS pkt: Packet too short'' init_worker)
   \<and> dnsflow_dns_check servfail_wire2pkt 53 (frame_mem example_frame) 28 init_worker
     = (None, init_worker)"
proof -
  have p1: "example_wire2pkt (load_bytes (frame_mem example_frame) 28 53) = Inr example_lp"
    by (simp add: example_wire2pkt_def ex_payload)
  have p2: "example_wire2pkt (load_bytes (frame_mem example_frame) 28 12) = Inl ''Packet too short''"
  proof -
    have "length (take 45 (load_bytes (frame_mem example_frame) 28 12))
        \<noteq> length example_dns_payload"
      by (simp add: example_dns_payload_def example_com_def)
    then have "take 45 (load_bytes (frame_mem example_frame) 28 12) \<noteq> example_dns_payload"
      by (rule contrapos_nn) (erule arg_cong)
    then show ?thesis by (simp only: example_wire2pkt_def if_False)
  qed
  have p3: "servfail_wire2pkt (load_bytes (frame_mem example_frame) 28 53)
      = Inr (example_lp\<lparr>pkt_rcode := LDNS_RCODE_OTHER 2\<rparr>)"
    by (simp add: servfail_wire2pkt_def)
  have f: "pkt_qr example_lp \<and> pkt_rd example_lp \<and> pkt_ra example_lp
      \<and> pkt_rcode example_lp = LDNS_RCODE_NOERROR \<and> length (pkt_question example_lp) = 1
      \<and> rr_type (pkt_question example_lp ! 0) = LDNS_RR_TYPE_A"
    by (simp add: example_lp_def)
  from C3_dns_check[of example_wire2pkt 53 "frame_mem example_frame" 28 init_worker
      example_lp _ example_lp] p1 f
  have a: "dnsflow_dns_check example_wire2pkt 53 (frame_mem example_frame) 28 init_worker
     = (Some example_lp, init_worker)"
    by (simp add: prod_eq_iff)
  from C3_dns_check[of example_wire2pkt 12 "frame_mem example_frame" 28 init_worker
      example_lp "''Packet too short''" example_lp] p2
  have b: "dnsflow_dns_check example_wire2pkt 12 (frame_mem example_frame) 28 init_worker
     = (None, log_line ''Bad DNS pkt: Packet too short'' init_worker)"
    by simp
  from C3_dns_check[of servfail_wire2pkt 53 "frame_mem example_frame" 28 init_worker
      "example_lp\<lparr>pkt_rcode := LDNS_RCODE_OTHER 2\<rparr>" _
      "example_lp\<lparr>pkt_rcode := LDNS_RCODE_OTHER 2\<rparr>"] p3
  have c: "dnsflow_dns_check servfail_wire2pkt 53 (frame_mem example_frame) 28 init_worker
     = (None, init_worker)"
    by (auto simp: prod_eq_iff example_lp_def)
  from a b c p1 p2 show ?thesis by simp
qed

text \<open>
  The projection in the words of the specification: the rdata of the CNAME records and of
  the A records of the answer section, in answer order; the names kept are the question
  name and then the first 254 CNAME targets of at most 255 bytes, the addresses kept are
  the first 255.
\<close>

definition cname_targets :: "ldns_rr list \<Rightarrow> byte list list" where
  "cname_targets rrs =
     concat (map (\<lambda>rr. if rr_type rr = LDNS_RR_TYPE_CNAME then rr_rdfs rr else []) rrs)"

definition a_rdatas :: "ldns_rr list \<Rightarrow> byte list list" where
  "a_rdatas rrs =
     concat (map (\<lambda>rr. if rr_type rr = LDNS_RR_TYPE_A then rr_rdfs rr else []) rrs)"

definition kept_names :: "ldns_pkt \<Rightarrow> byte list list" where
  "kept_names lp =
     rr_owner (pkt_question lp ! 0)
       # take 254 (filter (\<lambda>t. length t \<le> LDNS_MAX_DOMAINLEN) (cname_targets (pkt_answer lp)))"

definition kept_ips :: "ldns_pkt \<Rightarrow> in_addr_t list" where
  "kept_ips lp = take 255 (map from_be32 (a_rdatas (pkt_answer lp)))"

text \<open>What the two loops of \<^verbatim>\<open>dnsflow_dns_extract\<close> add to \<open>d\<close> from given rdata.\<close>

definition absorb :: "dns_data_set \<Rightarrow> byte list list \<Rightarrow> byte list list \<Rightarrow> dns_data_set" where
  "absorb d cs as =
     \<lparr>names = names d @ take (255 - length (names d)) (filter (\<lambda>t. length t \<le> 255) cs),
      ips = ips d @ take (255 - length (ips d)) (map from_be32 as)\<rparr>"

definition within_parse_limits :: "dns_data_set \<Rightarrow> bool" where
  "within_parse_limits d \<longleftrightarrow> length (names d) \<le> 255 \<and> length (ips d) \<le> 255"

lemma absorb_Nil: "absorb d [] [] = d"
  by (simp add: absorb_def)

lemma absorb_limits: "within_parse_limits d \<Longrightarrow> within_parse_limits (absorb d cs as)"
  by (auto simp: absorb_def within_parse_limits_def min_def)

lemma take_append_bounded:
  assumes "length xs \<le> k"
  shows "(xs @ take (k - length xs) ys) @ take (k - length (xs @ take (k - length xs) ys)) zs
     = xs @ take (k - length xs) (ys @ zs)"
proof (cases "length ys \<le> k - length xs")
  case True
  then show ?thesis by (simp add: min_def)
next
  case False
  then show ?thesis by (simp add: min_def)
qed

lemma absorb_absorb:
  assumes "within_parse_limits d"
  shows "absorb (absorb d cs1 as1) cs2 as2 = absorb d (cs1 @ cs2) (as1 @ as2)"
proof -
  from assms have n: "length (names d) \<le> 255" and i: "length (ips d) \<le> 255"
    by (simp_all add: within_parse_limits_def)
  have "names (absorb (absorb d cs1 as1) cs2 as2) = names (absorb d (cs1 @ cs2) (as1 @ as2))"
    using take_append_bounded[OF n, of "filter (\<lambda>t. length t \<le> 255) cs1"
        "filter (\<lambda>t. length t \<le> 255) cs2"]
    by (simp add: absorb_def)
  moreover
  have "ips (absorb (absorb d cs1 as1) cs2 as2) = ips (absorb d (cs1 @ cs2) (as1 @ as2))"
    using take_append_bounded[OF i, of "map from_be32 as1" "map from_be32 as2"]
    by (simp add: absorb_def)
  ultimately show ?thesis by simp
qed

lemma extract_rdf_absorb:
  assumes "within_parse_limits d"
  shows "fst (extract_rdf t rdf (d, s))
     = absorb d (if t = LDNS_RR_TYPE_CNAME then [rdf] else [])
                (if t = LDNS_RR_TYPE_A then [rdf] else [])"
proof -
  from assms have n: "length (names d) \<le> 255" and i: "length (ips d) \<le> 255"
    by (simp_all add: within_parse_limits_def)
  show ?thesis
  proof (cases t)
    case LDNS_RR_TYPE_A
    show ?thesis
    proof (cases "length (ips d) = 255")
      case True
      then show ?thesis by (simp add: LDNS_RR_TYPE_A extract_rdf_def absorb_def)
    next
      case False
      with i have "0 < 255 - length (ips d)" by simp
      with False show ?thesis
        by (simp add: LDNS_RR_TYPE_A extract_rdf_def absorb_def take_Cons')
    qed
  next
    case LDNS_RR_TYPE_CNAME
    show ?thesis
    proof (cases "length (names d) = 255")
      case True
      then show ?thesis by (simp add: LDNS_RR_TYPE_CNAME extract_rdf_def absorb_def)
    next
      case False
      with n have "0 < 255 - length (names d)" by simp
      with False show ?thesis
        by (simp add: LDNS_RR_TYPE_CNAME extract_rdf_def absorb_def take_Cons')
    qed
  next
    case (LDNS_RR_TYPE_OTHER x)
    then show ?thesis by (simp add: extract_rdf_def absorb_def)
  qed
qed

lemma fold_extract_rdf_absorb:
  assumes "within_parse_limits d"
  shows "fst (fold (extract_rdf t) rdfs (d, s))
     = absorb d (if t = LDNS_RR_TYPE_CNAME then rdfs else [])
                (if t = LDNS_RR_TYPE_A then rdfs else [])"
  using assms
proof (induction rdfs arbitrary: d s)
  case Nil
  show ?case by (simp add: absorb_Nil)
next
  case (Cons rdf rdfs)
  obtain d1 s1 where st: "extract_rdf t rdf (d, s) = (d1, s1)" by (cases "extract_rdf t rdf (d, s)")
  from extract_rdf_absorb[OF Cons.prems, of t rdf s] st
  have d1: "d1 = absorb d (if t = LDNS_RR_TYPE_CNAME then [rdf] else [])
                (if t = LDNS_RR_TYPE_A then [rdf] else [])" by simp
  then have l: "within_parse_limits d1" using absorb_limits[OF Cons.prems] by simp
  from Cons.IH[OF l, of s1] show ?case
    by (simp add: st d1 absorb_absorb[OF Cons.prems])
qed

lemma fold_extract_rr_absorb:
  assumes "within_parse_limits d"
  shows "fst (fold extract_rr rrs (d, s)) = absorb d (cname_targets rrs) (a_rdatas rrs)"
  using assms
proof (induction rrs arbitrary: d s)
  case Nil
  show ?case by (simp add: absorb_Nil cname_targets_def a_rdatas_def)
next
  case (Cons rr rrs)
  obtain d1 s1 where st: "extract_rr rr (d, s) = (d1, s1)" by (cases "extract_rr rr (d, s)")
  from fold_extract_rdf_absorb[OF Cons.prems, of "rr_type rr" "rr_rdfs rr" s] st
  have d1: "d1 = absorb d (if rr_type rr = LDNS_RR_TYPE_CNAME then rr_rdfs rr else [])
                (if rr_type rr = LDNS_RR_TYPE_A then rr_rdfs rr else [])"
    by (simp add: extract_rr_def)
  then have l: "within_parse_limits d1" using absorb_limits[OF Cons.prems] by simp
  from Cons.IH[OF l, of s1] show ?case
    by (simp add: st d1 absorb_absorb[OF Cons.prems] cname_targets_def a_rdatas_def)
qed

text \<open>Log lines plus collected names plus collected addresses.\<close>

definition tally :: "dns_data_set \<times> worker \<Rightarrow> nat" where
  "tally st = length (logged (snd st)) + length (names (fst st)) + length (ips (fst st))"

lemma extract_rdf_tally:
  "tally (extract_rdf t rdf st)
     = tally st + (if t = LDNS_RR_TYPE_CNAME \<or> t = LDNS_RR_TYPE_A then 1 else 0)"
  by (cases st) (simp add: extract_rdf_def tally_def)

lemma fold_extract_rdf_tally:
  "tally (fold (extract_rdf t) rdfs st)
     = tally st + (if t = LDNS_RR_TYPE_CNAME \<or> t = LDNS_RR_TYPE_A then length rdfs else 0)"
  by (induction rdfs arbitrary: st) (simp_all add: extract_rdf_tally)

lemma length_targets_Cons:
  "length (cname_targets (rr # rrs)) + length (a_rdatas (rr # rrs))
     = (if rr_type rr = LDNS_RR_TYPE_CNAME \<or> rr_type rr = LDNS_RR_TYPE_A
        then length (rr_rdfs rr) else 0)
       + (length (cname_targets rrs) + length (a_rdatas rrs))"
  by (simp add: cname_targets_def a_rdatas_def)

lemma fold_extract_rr_tally:
  "tally (fold extract_rr rrs st)
     = tally st + (length (cname_targets rrs) + length (a_rdatas rrs))"
proof (induction rrs arbitrary: st)
  case Nil
  show ?case by (simp add: cname_targets_def a_rdatas_def)
next
  case (Cons rr rrs)
  have "tally (extract_rr rr st) = tally st
      + (if rr_type rr = LDNS_RR_TYPE_CNAME \<or> rr_type rr = LDNS_RR_TYPE_A
         then length (rr_rdfs rr) else 0)"
    by (simp add: extract_rr_def fold_extract_rdf_tally)
  with Cons.IH[of "extract_rr rr st"] show ?case
    unfolding length_targets_Cons by simp
qed

text \<open>
  Claim C4, as amended. If the question name is longer than 255 bytes the response is
  rejected with one log line. Otherwise the names are the question name followed, in
  answer order, by the CNAME targets of at most 255 bytes, up to 255 names in all; the
  addresses are the A rdata in answer order, up to 255; records of other types are
  ignored; the response is rejected exactly when no address was collected; and every
  CNAME target and A rdata that was not kept (a target longer than 255 bytes, or one
  past the limits) accounts for exactly one log line. A CNAME target longer than 255
  bytes is skipped and does not make the response rejected. Nothing but the log changes.
\<close>

theorem C4_dns_extract:
  "(LDNS_MAX_DOMAINLEN < length (rr_owner (pkt_question lp ! 0)) \<longrightarrow>
      dnsflow_dns_extract lp s = (None, log_line ''Invalid query string'' s))
   \<and> (length (rr_owner (pkt_question lp ! 0)) \<le> LDNS_MAX_DOMAINLEN \<longrightarrow>
        fst (dnsflow_dns_extract lp s)
          = (if kept_ips lp = [] then None
             else Some \<lparr>names = kept_names lp, ips = kept_ips lp\<rparr>)
      \<and> length (logged (snd (dnsflow_dns_extract lp s)))
            + length (kept_names lp) + length (kept_ips lp)
          = length (logged s) + 1 + length (cname_targets (pkt_answer lp))
            + length (a_rdatas (pkt_answer lp))
      \<and> only_logged s (snd (dnsflow_dns_extract lp s)))"
proof (intro conjI impI)
  assume "LDNS_MAX_DOMAINLEN < length (rr_owner (pkt_question lp ! 0))"
  then show "dnsflow_dns_extract lp s = (None, log_line ''Invalid query string'' s)"
    by (simp add: dnsflow_dns_extract_def)
next
  assume le: "length (rr_owner (pkt_question lp ! 0)) \<le> LDNS_MAX_DOMAINLEN"
  let ?d0 = "\<lparr>names = [rr_owner (pkt_question lp ! 0)], ips = []\<rparr>"
  let ?r = "fold extract_rr (pkt_answer lp) (?d0, s)"
  have lim: "within_parse_limits ?d0" by (simp add: within_parse_limits_def)
  have d: "fst ?r = \<lparr>names = kept_names lp, ips = kept_ips lp\<rparr>"
    using fold_extract_rr_absorb[OF lim, of "pkt_answer lp" s]
    by (simp add: absorb_def kept_names_def kept_ips_def)
  have e: "dnsflow_dns_extract lp s
      = (if kept_ips lp = [] then None else Some (fst ?r), snd ?r)"
    using le d by (simp add: dnsflow_dns_extract_def Let_def case_prod_beta kept_names_def)
  show "fst (dnsflow_dns_extract lp s)
      = (if kept_ips lp = [] then None else Some \<lparr>names = kept_names lp, ips = kept_ips lp\<rparr>)"
    by (simp add: e d)
  have "tally ?r = tally (?d0, s)
      + (length (cname_targets (pkt_answer lp)) + length (a_rdatas (pkt_answer lp)))"
    by (rule fold_extract_rr_tally)
  then show "length (logged (snd (dnsflow_dns_extract lp s)))
        + length (kept_names lp) + length (kept_ips lp)
      = length (logged s) + 1 + length (cname_targets (pkt_answer lp))
        + length (a_rdatas (pkt_answer lp))"
    by (simp add: e tally_def d)
  show "only_logged s (snd (dnsflow_dns_extract lp s))"
    by (rule dns_extract_only_logged)
qed

text \<open>
  The example message with a CNAME record whose target has 256 bytes put before the A
  record, and the example message asked about a name of 256 bytes.
\<close>

definition oversize_cname_lp :: ldns_pkt where
  "oversize_cname_lp = example_lp\<lparr>pkt_answer :=
     [\<lparr>rr_owner = example_com, rr_type = LDNS_RR_TYPE_CNAME, rr_rdfs = [replicate 256 0x61]\<rparr>,
      \<lparr>rr_owner = example_com, rr_type = LDNS_RR_TYPE_A, rr_rdfs = [[0x5d, 0xb8, 0xd8, 0x22]]\<rparr>]\<rparr>"

definition oversize_question_lp :: ldns_pkt where
  "oversize_question_lp = example_lp\<lparr>pkt_question :=
     [\<lparr>rr_owner = replicate 256 0x61, rr_type = LDNS_RR_TYPE_A, rr_rdfs = []\<rparr>]\<rparr>"

theorem C4_dns_extract_witness:
  "length (rr_owner (pkt_question example_lp ! 0)) \<le> LDNS_MAX_DOMAINLEN
   \<and> kept_names example_lp = [example_com]
   \<and> kept_ips example_lp = [0x5db8d822]
   \<and> fst (dnsflow_dns_extract example_lp init_worker)
       = Some \<lparr>names = [example_com], ips = [0x5db8d822]\<rparr>
   \<and> length (logged (snd (dnsflow_dns_extract example_lp init_worker))) = 0
   \<and> LDNS_MAX_DOMAINLEN < length (rr_owner (pkt_question oversize_question_lp ! 0))
   \<and> dnsflow_dns_extract oversize_question_lp init_worker
       = (None, log_line ''Invalid query string'' init_worker)"
proof -
  have q: "length (rr_owner (pkt_question example_lp ! 0)) \<le> LDNS_MAX_DOMAINLEN"
    by (simp add: example_lp_def example_com_def)
  have kn: "kept_names example_lp = [example_com]"
    by (simp add: kept_names_def cname_targets_def example_lp_def)
  have ki: "kept_ips example_lp = [0x5db8d822]"
    by (simp add: kept_ips_def a_rdatas_def example_lp_def from_be32_def)
  have ct: "cname_targets (pkt_answer example_lp) = []"
    and ar: "length (a_rdatas (pkt_answer example_lp)) = 1"
    by (simp_all add: cname_targets_def a_rdatas_def example_lp_def)
  have l: "logged init_worker = []" by (simp add: init_worker_def)
  have oq: "LDNS_MAX_DOMAINLEN < length (rr_owner (pkt_question oversize_question_lp ! 0))"
    by (simp add: oversize_question_lp_def)
  from C4_dns_extract[of example_lp init_worker] q
  have a: "fst (dnsflow_dns_extract example_lp init_worker)
       = Some \<lparr>names = [example_com], ips = [0x5db8d822]\<rparr>"
    and b: "length (logged (snd (dnsflow_dns_extract example_lp init_worker))) = 0"
    by (simp_all add: kn ki ct ar l)
  from C4_dns_extract[of oversize_question_lp init_worker] oq
  have c: "dnsflow_dns_extract oversize_question_lp init_worker
       = (None, log_line ''Invalid query string'' init_worker)"
    by blast
  from q kn ki a b oq c show ?thesis by simp
qed

text \<open>
  A response with a name of more than 255 bytes among its CNAME targets is not rejected:
  the target is skipped with the log line \<^verbatim>\<open>Invalid name\<close> and the response goes on to
  the batcher.
\<close>

theorem C4_oversize_name_counterexample:
  "pkt_answer oversize_cname_lp ! 0
     = \<lparr>rr_owner = example_com, rr_type = LDNS_RR_TYPE_CNAME, rr_rdfs = [replicate 256 0x61]\<rparr>
   \<and> LDNS_MAX_DOMAINLEN < length (replicate 256 (0x61 :: byte))
   \<and> dnsflow_dns_extract oversize_cname_lp init_worker
       = (Some \<lparr>names = [example_com], ips = [0x5db8d822]\<rparr>,
          log_line ''Invalid name'' init_worker)"
  by (simp add: dnsflow_dns_extract_def oversize_cname_lp_def example_lp_def extract_rr_def
      extract_rdf_def example_com_def from_be32_def Let_def)


section \<open>The capture filter and the sharding of clients\<close>

text \<open>
  The value of an arithmetic expression on a packet, in the 32-bit unsigned arithmetic of
  the filter machine; a load reads big-endian from the IPv4 header (\<^verbatim>\<open>ip\<close>) or from the
  UDP header behind it (\<^verbatim>\<open>udp\<close>); a division by zero has no value and the packet is
  rejected. \<open>clause_holds\<close> is the truth of a comparison.
\<close>

fun arth_val :: "memory \<Rightarrow> arth \<Rightarrow> 32 word option" where
  "arth_val p (Const w) = Some w"
| "arth_val p (Load proto k n) =
     (let base = (if proto = ''udp'' then ip_hl p 0 * 4 else 0)
      in if proto \<noteq> ''ip'' \<and> proto \<noteq> ''udp'' then None
         else if n = 4 then Some (from_be32 (load_bytes p (base + k) 4))
         else if n = 2 then Some (ucast (from_be16 (load_bytes p (base + k) 2)))
         else if n = 1 then Some (ucast (p (base + k)))
         else None)"
| "arth_val p (Minus a b) =
     (case (arth_val p a, arth_val p b) of (Some x, Some y) \<Rightarrow> Some (x - y) | _ \<Rightarrow> None)"
| "arth_val p (Times a b) =
     (case (arth_val p a, arth_val p b) of (Some x, Some y) \<Rightarrow> Some (x * y) | _ \<Rightarrow> None)"
| "arth_val p (Over a b) =
     (case (arth_val p a, arth_val p b) of
        (Some x, Some y) \<Rightarrow> if y = 0 then None else Some (x div y)
      | _ \<Rightarrow> None)"
| "arth_val p (BitAnd a b) =
     (case (arth_val p a, arth_val p b) of (Some x, Some y) \<Rightarrow> Some (x AND y) | _ \<Rightarrow> None)"

fun clause_holds :: "memory \<Rightarrow> filter \<Rightarrow> bool" where
  "clause_holds p (Eq a b) =
     (case (arth_val p a, arth_val p b) of (Some x, Some y) \<Rightarrow> x = y | _ \<Rightarrow> False)"
| "clause_holds p _ = False"

lemma word_sub_div_mult: "(c :: 32 word) - c div n * n = c mod n"
  by (rule minus_div_mult_eq_mod)

lemma uint_word_of_int_small:
  "0 \<le> k \<Longrightarrow> k < 2 ^ 31 \<Longrightarrow> uint (word_of_int k :: 32 word) = k"
  by (simp add: uint_word_of_int take_bit_int_eq_self)

lemma multi_proc_clause_iff:
  assumes n: "1 < num_procs" "num_procs < 2 ^ 31"
    and pi: "1 \<le> proc_i" "proc_i \<le> num_procs"
  shows "clause_holds p (multi_proc_clause off proc_i num_procs)
     \<longleftrightarrow> uint (from_be32 (load_bytes p off 4)) mod num_procs = proc_i - 1"
proof -
  let ?c = "from_be32 (load_bytes p off 4)"
  let ?n = "word_of_int num_procs :: 32 word"
  from n have un: "uint ?n = num_procs" by (simp add: uint_word_of_int_small)
  have nz: "?n \<noteq> 0"
  proof
    assume "?n = 0"
    then have "uint ?n = 0" by simp
    with un n show False by simp
  qed
  from n pi have ur: "uint (word_of_int (proc_i - 1) :: 32 word) = proc_i - 1"
    by (intro uint_word_of_int_small) simp_all
  have "clause_holds p (multi_proc_clause off proc_i num_procs)
      \<longleftrightarrow> ?c - ?c div ?n * ?n = word_of_int (proc_i - 1)"
    using nz by (simp add: multi_proc_clause_def del: of_int_diff)
  also have "\<dots> \<longleftrightarrow> ?c mod ?n = word_of_int (proc_i - 1)"
    by (simp only: word_sub_div_mult)
  also have "\<dots> \<longleftrightarrow> uint (?c mod ?n) = uint (word_of_int (proc_i - 1) :: 32 word)"
    by (simp only: word_uint_eq_iff)
  also have "\<dots> \<longleftrightarrow> uint ?c mod num_procs = proc_i - 1"
    by (simp only: uint_mod un ur)
  finally show ?thesis .
qed

lemma build_pcap_filter_multi:
  "1 < num_procs \<Longrightarrow>
     build_pcap_filter encap_offset proc_i num_procs enable_mdns =
       Or (And (dns_resp_filter (filter_udp_offset encap_offset) enable_mdns)
               (multi_proc_clause (dst_ip_offset + filter_ip_offset encap_offset) proc_i num_procs))
          (And (Proto ''vlan'')
               (And (dns_resp_filter (filter_udp_offset encap_offset) enable_mdns)
                    (multi_proc_clause (dst_ip_offset + filter_ip_offset encap_offset)
                       proc_i num_procs)))"
  by (simp add: build_pcap_filter_def Let_def)

text \<open>The client address that the callback records is the one it hands to the batcher.\<close>

lemma dcap_cb_uses_client_ip:
  assumes "dcap_client_ip cfg pkt_len p = Some c"
  shows "only_logged s (dnsflow_dcap_cb cfg w2p now pkt_len p s)
   \<or> (\<exists>s1 d. only_logged s s1
        \<and> dnsflow_dcap_cb cfg w2p now pkt_len p s = dnsflow_pkt_build now c d s1)"
proof -
  from assms obtain ip udphdr udp_data
    where dc: "dcap_cb_decap cfg pkt_len p = Some (ip, udphdr, udp_data)" and c: "c = ip_dst p ip"
    by (auto simp: dcap_client_ip_def split: option.splits)
  let ?c = "dnsflow_dns_check w2p (uh_ulen p udphdr) p udp_data s"
  have cl: "only_logged s (snd ?c)" by (rule dns_check_only_logged)
  show ?thesis
  proof (cases "fst ?c")
    case None
    with dc cl show ?thesis by (simp add: dnsflow_dcap_cb_def case_prod_beta)
  next
    case (Some lp)
    note lp = this
    let ?e = "dnsflow_dns_extract lp (snd ?c)"
    have e: "only_logged s (snd ?e)"
      by (rule only_logged_trans[OF cl dns_extract_only_logged])
    show ?thesis
    proof (cases "fst ?e")
      case None
      with dc lp e show ?thesis by (simp add: dnsflow_dcap_cb_def case_prod_beta)
    next
      case (Some d)
      with dc lp c have "dnsflow_dcap_cb cfg w2p now pkt_len p s = dnsflow_pkt_build now c d (snd ?e)"
        by (simp add: dnsflow_dcap_cb_def case_prod_beta)
      with e show ?thesis by blast
    qed
  qed
qed

text \<open>
  Where the shard clause reads. The clause loads \<^verbatim>\<open>ip[16 + ip_offset:4]\<close>, counted from the
  start of the outer IPv4 header, and \<^verbatim>\<open>ip_offset\<close> takes the outer header to be
  \<^verbatim>\<open>sizeof(struct ip)\<close> long. When the frame carries the encapsulation the filter was built
  for, and the outer header of an encapsulated frame has no options, these four bytes are
  the client address of the callback.
\<close>

lemma client_ip_at_filter_offset:
  assumes client: "dcap_client_ip cfg pkt_len p = Some c"
    and encap: "dcap_cb_encap_offset cfg pkt_len p = Some encap_offset"
    and no_options: "encap_offset = 0 \<or> ip_hl p 0 = 5"
  shows "from_be32 (load_bytes p (dst_ip_offset + filter_ip_offset encap_offset) 4) = c"
proof -
  from encap obtain r where r: "ip_udp_check pkt_len p 0 = Some r"
    by (auto simp: dcap_cb_encap_offset_def split: option.splits)
  from ip_udp_check_result[OF r] have r': "r = (0, ip_hl p 0 * 4, ip_hl p 0 * 4 + 8)" by simp
  let ?e = "if uh_dport p (ip_hl p 0 * 4) = pcap_record_dst_port cfg then 30
            else if uh_dport p (ip_hl p 0 * 4) = jmirror_dst_port cfg then 8 else (0::nat)"
  from encap r r' have e: "?e = encap_offset"
    by (auto simp: dcap_cb_encap_offset_def split: if_splits)
  show ?thesis
  proof (cases "encap_offset = 0")
    case True
    have "dcap_cb_decap cfg pkt_len p
        = (if ?e \<noteq> 0 then ip_encap_check (pkt_len - int (ip_hl p 0 * 4 + 8)) p (ip_hl p 0 * 4 + 8) ?e
           else Some (0, ip_hl p 0 * 4, ip_hl p 0 * 4 + 8))"
      unfolding dcap_cb_decap_def r r' by (simp add: Let_def)
    with True have "dcap_cb_decap cfg pkt_len p = Some (0, ip_hl p 0 * 4, ip_hl p 0 * 4 + 8)"
      unfolding e by simp
    with client have "c = ip_dst p 0" by (simp add: dcap_client_ip_def)
    with True show ?thesis by (simp add: filter_ip_offset_def ip_dst_def)
  next
    case False
    with no_options have hl: "ip_hl p 0 = 5" by simp
    have "dcap_cb_decap cfg pkt_len p
        = (if ?e \<noteq> 0 then ip_encap_check (pkt_len - int (ip_hl p 0 * 4 + 8)) p (ip_hl p 0 * 4 + 8) ?e
           else Some (0, ip_hl p 0 * 4, ip_hl p 0 * 4 + 8))"
      unfolding dcap_cb_decap_def r r' by (simp add: Let_def)
    with False hl have dc: "dcap_cb_decap cfg pkt_len p
        = ip_encap_check (pkt_len - 28) p 28 encap_offset"
      unfolding e by simp
    from client obtain ip udphdr udp_data
      where s: "dcap_cb_decap cfg pkt_len p = Some (ip, udphdr, udp_data)" and c: "c = ip_dst p ip"
      by (auto simp: dcap_client_ip_def split: option.splits)
    from s dc have "ip_udp_check (pkt_len - 28 - int encap_offset) p (28 + encap_offset)
        = Some (ip, udphdr, udp_data)"
      by (simp add: ip_encap_check_def split: if_splits)
    from ip_udp_check_result[OF this] have "ip = 28 + encap_offset" by simp
    with c False show ?thesis by (simp add: filter_ip_offset_def ip_dst_def add.commute add.left_commute)
  qed
qed

lemma sint_eq_uint_small:
  fixes w :: "32 word"
  assumes "w < 2 ^ 31"
  shows "sint w = uint w"
proof -
  from assms have "uint w < 2 ^ 31" by (simp add: word_less_def)
  moreover have "- (2 ^ 31) \<le> uint w" by (rule order_trans[of _ 0]) simp_all
  ultimately have "signed_take_bit 31 (uint w) = uint w"
    by (rule signed_take_bit_int_eq_self[rotated])
  then show ?thesis by (simp add: sint_uint)
qed

lemma multi_proc_clause_word_iff:
  fixes n_procs proc_i :: "32 word"
  assumes n: "1 < n_procs" "n_procs < 2 ^ 31"
    and pi: "1 \<le> proc_i" "proc_i \<le> n_procs"
  shows "clause_holds p (multi_proc_clause off (sint proc_i) (sint n_procs))
     \<longleftrightarrow> uint (from_be32 (load_bytes p off 4)) mod uint n_procs = uint proc_i - 1"
proof -
  from n have un: "1 < uint n_procs" "uint n_procs < 2 ^ 31" by (simp_all add: word_less_def)
  from pi have up: "1 \<le> uint proc_i" "uint proc_i \<le> uint n_procs" by (simp_all add: word_le_def)
  from pi n have "proc_i < 2 ^ 31" by simp
  then have sp: "sint proc_i = uint proc_i" by (rule sint_eq_uint_small)
  from n have sn: "sint n_procs = uint n_procs" by (simp add: sint_eq_uint_small)
  show ?thesis unfolding sp sn by (rule multi_proc_clause_iff[OF un up])
qed

lemma sint_neg_big:
  fixes w :: "32 word"
  assumes "2 ^ 31 \<le> w"
  shows "sint w < 0"
proof -
  from assms have lo: "2147483648 \<le> uint w" by (simp add: word_le_def)
  have hi: "uint w < 4294967296" using uint_bounded[of w] by simp
  have "uint w + 2147483648 = uint w - 2147483648 + 4294967296" by arith
  then have "(uint w + 2147483648) mod 4294967296
      = (uint w - 2147483648 + 4294967296) mod 4294967296"
    by (rule arg_cong)
  also have "\<dots> = (uint w - 2147483648) mod 4294967296"
    by (rule mod_add_self2)
  also from lo hi have "\<dots> = uint w - 2147483648"
    by (simp add: mod_pos_pos_trivial)
  finally have "(uint w + 2147483648) mod 4294967296 < 2147483648"
    using hi by simp
  then show ?thesis
    by (simp add: sint_uint signed_take_bit_eq_take_bit_shift take_bit_eq_mod)
qed

text \<open>
  A worker count of \<open>2 ^ 31\<close> or more, which \<^verbatim>\<open>-m\<close> accepts, is negative as an \<^verbatim>\<open>int\<close>: the
  test \<^verbatim>\<open>num_procs > 1\<close> fails and the filter has no shard clause.
\<close>

lemma main_filter_no_shard:
  fixes n_procs :: "32 word"
  assumes "2 ^ 31 \<le> n_procs"
  shows "main_filter encap_offset proc_i n_procs enable_mdns =
     Or (dns_resp_filter (filter_udp_offset encap_offset) enable_mdns)
        (And (Proto ''vlan'') (dns_resp_filter (filter_udp_offset encap_offset) enable_mdns))"
  using sint_neg_big[OF assms] by (simp add: main_filter_def build_pcap_filter_def Let_def)

text \<open>
  Claim C9, as amended. Let the worker count \<open>n_procs\<close> be greater than 1 and below
  \<open>2 ^ 31\<close>, and take a frame that the decapsulator accepts, with \<open>c\<close> the client address
  the callback records for it (the destination of the innermost IPv4 header), such that
  the frame carries the encapsulation the filter was built for (\<open>encap_offset\<close>: none, or
  the header of \<^verbatim>\<open>-J\<close> or \<^verbatim>\<open>-X\<close>) and, when it is encapsulated, its outer IPv4 header has no
  options. Then the filter of every worker \<open>proc_i\<close> in \<open>1..n_procs\<close> is the response filter,
  the same for all workers, together with the shard clause of \<open>proc_i\<close>; that clause holds
  of the frame if and only if \<open>c mod n_procs = proc_i - 1\<close>; and so it holds for exactly one
  worker.
\<close>

theorem C9_shard_disjoint:
  fixes n_procs :: "32 word"
  assumes n: "1 < n_procs" "n_procs < 2 ^ 31"
    and client: "dcap_client_ip cfg pkt_len p = Some c"
    and encap: "dcap_cb_encap_offset cfg pkt_len p = Some encap_offset"
    and no_options: "encap_offset = 0 \<or> ip_hl p 0 = 5"
  shows "(\<forall>proc_i. 1 \<le> proc_i \<and> proc_i \<le> n_procs \<longrightarrow>
            main_filter encap_offset proc_i n_procs enable_mdns =
              Or (And (dns_resp_filter (filter_udp_offset encap_offset) enable_mdns)
                      (multi_proc_clause (dst_ip_offset + filter_ip_offset encap_offset)
                         (sint proc_i) (sint n_procs)))
                 (And (Proto ''vlan'')
                      (And (dns_resp_filter (filter_udp_offset encap_offset) enable_mdns)
                           (multi_proc_clause (dst_ip_offset + filter_ip_offset encap_offset)
                              (sint proc_i) (sint n_procs))))
            \<and> (clause_holds p (multi_proc_clause (dst_ip_offset + filter_ip_offset encap_offset)
                    (sint proc_i) (sint n_procs))
               \<longleftrightarrow> uint c mod uint n_procs = uint proc_i - 1))
     \<and> (\<exists>!proc_i. 1 \<le> proc_i \<and> proc_i \<le> n_procs
            \<and> clause_holds p (multi_proc_clause (dst_ip_offset + filter_ip_offset encap_offset)
                  (sint proc_i) (sint n_procs)))"
proof -
  let ?off = "dst_ip_offset + filter_ip_offset encap_offset"
  let ?n = "uint n_procs"
  have c: "from_be32 (load_bytes p ?off 4) = c"
    by (rule client_ip_at_filter_offset[OF client encap no_options])
  from n have un: "1 < ?n" "?n < 2 ^ 31" by (simp_all add: word_less_def)
  from n have sn: "1 < sint n_procs" by (simp add: sint_eq_uint_small un)
  have iff: "clause_holds p (multi_proc_clause ?off (sint proc_i) (sint n_procs))
      \<longleftrightarrow> uint c mod ?n = uint proc_i - 1"
    if "1 \<le> proc_i" "proc_i \<le> n_procs" for proc_i
    using multi_proc_clause_word_iff[OF n that, of p ?off] by (simp only: c)
  have shape: "main_filter encap_offset proc_i n_procs enable_mdns =
              Or (And (dns_resp_filter (filter_udp_offset encap_offset) enable_mdns)
                      (multi_proc_clause ?off (sint proc_i) (sint n_procs)))
                 (And (Proto ''vlan'')
                      (And (dns_resp_filter (filter_udp_offset encap_offset) enable_mdns)
                           (multi_proc_clause ?off (sint proc_i) (sint n_procs))))" for proc_i
    unfolding main_filter_def by (rule build_pcap_filter_multi[OF sn])
  let ?r = "uint c mod ?n"
  from un have r: "0 \<le> ?r" "?r < ?n" by simp_all
  let ?w = "word_of_int (?r + 1) :: 32 word"
  from r un have "0 \<le> ?r + 1" "?r + 1 < 2 ^ 31" by linarith+
  then have uw: "uint ?w = ?r + 1" by (rule uint_word_of_int_small)
  have ex: "\<exists>!proc_i. 1 \<le> proc_i \<and> proc_i \<le> n_procs
      \<and> clause_holds p (multi_proc_clause ?off (sint proc_i) (sint n_procs))"
  proof (rule ex1I[of _ ?w])
    from r uw have b: "1 \<le> ?w" "?w \<le> n_procs" by (simp_all add: word_le_def)
    with iff[OF b] uw show "1 \<le> ?w \<and> ?w \<le> n_procs
        \<and> clause_holds p (multi_proc_clause ?off (sint ?w) (sint n_procs))"
      by simp
  next
    fix q :: "32 word"
    assume q: "1 \<le> q \<and> q \<le> n_procs \<and> clause_holds p (multi_proc_clause ?off (sint q) (sint n_procs))"
    with iff[of q] have "uint q = ?r + 1" by simp
    with uw have "uint q = uint ?w" by simp
    then show "q = ?w" by (simp only: word_uint_eq_iff)
  qed
  from shape iff ex show ?thesis by blast
qed

text \<open>
  Two frames that carry the example response behind a J-Mirror header (outer UDP
  destination port 30030, 8 bytes of J-Mirror header): the first with an outer IPv4
  header of 20 bytes, the second with four bytes of options in the outer header.
\<close>

definition jmirror_frame :: "byte list" where
  "jmirror_frame =
     [0x45, 0x00, 0x00, 0x6d, 0x00, 0x00, 0x40, 0x00, 0x40, 0x11, 0x00, 0x00,
      0xc0, 0x00, 0x02, 0x01, 0xc0, 0x00, 0x02, 0x02]
     @ [0x75, 0x4e, 0x75, 0x4e, 0x00, 0x59, 0x00, 0x00]
     @ [0x00, 0x00, 0x00, 0x01, 0x00, 0x00, 0x00, 0x02]
     @ example_frame"

definition jmirror_options_frame :: "byte list" where
  "jmirror_options_frame =
     [0x46, 0x00, 0x00, 0x71, 0x00, 0x00, 0x40, 0x00, 0x40, 0x11, 0x00, 0x00,
      0xc0, 0x00, 0x02, 0x01, 0xc0, 0x00, 0x02, 0x02, 0x01, 0x01, 0x01, 0x00]
     @ [0x75, 0x4e, 0x75, 0x4e, 0x00, 0x59, 0x00, 0x00]
     @ [0x00, 0x00, 0x00, 0x01, 0x00, 0x00, 0x00, 0x02]
     @ example_frame"

lemma length_jmirror_frame: "length jmirror_frame = 109"
  by (simp add: jmirror_frame_def length_example_frame)

lemma jm_decap: "dcap_cb_decap example_cfg 109 (frame_mem jmirror_frame) = Some (36, 56, 64)"
  by (simp add: dcap_cb_decap_def ip_encap_check_def ip_udp_check_def ip4_check_def udp4_check_def lt_sizeof_def
      ip_v_def ip_hl_def ip_len_def ip_p_def uh_ulen_def uh_dport_def from_be16_def load_bytes_def
      frame_mem_def jmirror_frame_def example_frame_def example_dns_payload_def example_com_def example_cfg_def
      Let_def upt_rec)

lemma jmo_decap: "dcap_cb_decap example_cfg 113 (frame_mem jmirror_options_frame) = Some (40, 60, 68)"
  by (simp add: dcap_cb_decap_def ip_encap_check_def ip_udp_check_def ip4_check_def udp4_check_def lt_sizeof_def
      ip_v_def ip_hl_def ip_len_def ip_p_def uh_ulen_def uh_dport_def from_be16_def load_bytes_def
      frame_mem_def jmirror_options_frame_def example_frame_def example_dns_payload_def example_com_def example_cfg_def
      Let_def upt_rec)


lemma jm_client: "dcap_client_ip example_cfg 109 (frame_mem jmirror_frame) = Some 0x0a000007"
  by (simp add: dcap_client_ip_def jm_decap)
    (simp add: ip_dst_def from_be32_def load_bytes_def frame_mem_def jmirror_frame_def
      example_frame_def upt_rec)

lemma jm_encap: "dcap_cb_encap_offset example_cfg 109 (frame_mem jmirror_frame) = Some 8"
  by (simp add: dcap_cb_encap_offset_def ip_udp_check_def ip4_check_def udp4_check_def lt_sizeof_def
      ip_v_def ip_hl_def ip_len_def ip_p_def uh_ulen_def uh_dport_def from_be16_def load_bytes_def
      frame_mem_def jmirror_frame_def example_cfg_def Let_def upt_rec)

lemma jm_hl: "ip_hl (frame_mem jmirror_frame) 0 = 5"
  by (simp add: ip_hl_def frame_mem_def jmirror_frame_def)

lemma ex_client: "dcap_client_ip example_cfg 73 (frame_mem example_frame) = Some 0x0a000007"
  by (simp add: dcap_client_ip_def ex_decap ex_ip_dst)

lemma ex_encap: "dcap_cb_encap_offset example_cfg 73 (frame_mem example_frame) = Some 0"
  by (simp add: dcap_cb_encap_offset_def ip_udp_check_def ip4_check_def udp4_check_def lt_sizeof_def
      ip_v_def ip_hl_def ip_len_def ip_p_def uh_ulen_def uh_dport_def from_be16_def load_bytes_def
      frame_mem_def example_frame_def example_cfg_def Let_def upt_rec)

lemma jmo_client:
  "dcap_client_ip example_cfg 113 (frame_mem jmirror_options_frame) = Some 0x0a000007"
  by (simp add: dcap_client_ip_def jmo_decap)
    (simp add: ip_dst_def from_be32_def load_bytes_def frame_mem_def jmirror_options_frame_def
      example_frame_def upt_rec)

lemma jmo_encap:
  "dcap_cb_encap_offset example_cfg 113 (frame_mem jmirror_options_frame) = Some 8"
  by (simp add: dcap_cb_encap_offset_def ip_udp_check_def ip4_check_def udp4_check_def lt_sizeof_def
      ip_v_def ip_hl_def ip_len_def ip_p_def uh_ulen_def uh_dport_def from_be16_def load_bytes_def
      frame_mem_def jmirror_options_frame_def example_cfg_def Let_def upt_rec)

lemma jmo_hl: "ip_hl (frame_mem jmirror_options_frame) 0 = 6"
  by (simp add: ip_hl_def frame_mem_def jmirror_options_frame_def)

lemma jmo_at_52:
  "from_be32 (load_bytes (frame_mem jmirror_options_frame) 52 4) = 0x08080808"
  by (simp add: from_be32_def load_bytes_def frame_mem_def jmirror_options_frame_def
      example_frame_def upt_rec)

lemma ex_at_52: "from_be32 (load_bytes (frame_mem example_frame) 52 4) = 0x00000100"
  by (simp add: from_be32_def load_bytes_def frame_mem_def example_frame_def
      example_dns_payload_def example_com_def upt_rec)

lemma main_filter_8_4: "main_filter 8 k 4 False =
     Or (And (dns_resp_filter 36 False) (multi_proc_clause 52 (sint k) 4))
        (And (Proto ''vlan'') (And (dns_resp_filter 36 False) (multi_proc_clause 52 (sint k) 4)))"
  by (simp add: main_filter_def build_pcap_filter_def filter_udp_offset_def filter_ip_offset_def
      Let_def)

theorem C9_shard_disjoint_witness:
  "(1 :: 32 word) < 4 \<and> (4 :: 32 word) < 2 ^ 31
   \<and> dcap_client_ip example_cfg 109 (frame_mem jmirror_frame) = Some 0x0a000007
   \<and> dcap_cb_encap_offset example_cfg 109 (frame_mem jmirror_frame) = Some 8
   \<and> ip_hl (frame_mem jmirror_frame) 0 = 5
   \<and> main_filter 8 4 4 False =
        Or (And (dns_resp_filter 36 False) (multi_proc_clause 52 4 4))
           (And (Proto ''vlan'') (And (dns_resp_filter 36 False) (multi_proc_clause 52 4 4)))
   \<and> clause_holds (frame_mem jmirror_frame) (multi_proc_clause 52 4 4)
   \<and> \<not> clause_holds (frame_mem jmirror_frame) (multi_proc_clause 52 1 4)
   \<and> \<not> clause_holds (frame_mem jmirror_frame) (multi_proc_clause 52 2 4)
   \<and> \<not> clause_holds (frame_mem jmirror_frame) (multi_proc_clause 52 3 4)
   \<and> dcap_client_ip example_cfg 73 (frame_mem example_frame) = Some 0x0a000007
   \<and> dcap_cb_encap_offset example_cfg 73 (frame_mem example_frame) = Some 0
   \<and> clause_holds (frame_mem example_frame) (multi_proc_clause 16 4 4)
   \<and> \<not> clause_holds (frame_mem example_frame) (multi_proc_clause 16 1 4)"
proof -
  have n: "(1 :: 32 word) < 4" "(4 :: 32 word) < 2 ^ 31" by simp_all
  have o8: "dst_ip_offset + filter_ip_offset 8 = 52" "filter_udp_offset 8 = 36"
    by (simp_all add: filter_ip_offset_def filter_udp_offset_def)
  have o0: "dst_ip_offset + filter_ip_offset 0 = 16" "filter_udp_offset 0 = 0"
    by (simp_all add: filter_ip_offset_def filter_udp_offset_def)
  have s: "sint (1 :: 32 word) = 1" "sint (2 :: 32 word) = 2" "sint (3 :: 32 word) = 3"
    "sint (4 :: 32 word) = 4"
    by simp_all
  note jm = C9_shard_disjoint[OF n jm_client jm_encap, of False, unfolded o8, THEN conjunct1]
  note ex = C9_shard_disjoint[OF n ex_client ex_encap, of False, unfolded o0, THEN conjunct1]
  from jm[THEN spec, of 4] have j4: "main_filter 8 4 4 False =
        Or (And (dns_resp_filter 36 False) (multi_proc_clause 52 4 4))
           (And (Proto ''vlan'') (And (dns_resp_filter 36 False) (multi_proc_clause 52 4 4)))"
    and c4: "clause_holds (frame_mem jmirror_frame) (multi_proc_clause 52 4 4)"
    by (simp_all add: jm_hl s)
  from jm[THEN spec, of 1] jm[THEN spec, of 2] jm[THEN spec, of 3]
  have c1: "\<not> clause_holds (frame_mem jmirror_frame) (multi_proc_clause 52 1 4)"
    and c2: "\<not> clause_holds (frame_mem jmirror_frame) (multi_proc_clause 52 2 4)"
    and c3: "\<not> clause_holds (frame_mem jmirror_frame) (multi_proc_clause 52 3 4)"
    by (simp_all add: jm_hl s)
  from ex[THEN spec, of 4] ex[THEN spec, of 1]
  have e4: "clause_holds (frame_mem example_frame) (multi_proc_clause 16 4 4)"
    and e1: "\<not> clause_holds (frame_mem example_frame) (multi_proc_clause 16 1 4)"
    by (simp_all add: s)
  from n jm_client jm_encap jm_hl j4 c4 c1 c2 c3 ex_client ex_encap e4 e1
  show ?thesis by (intro conjI)
qed

text \<open>
  The claim as stated fails outside these conditions. With options in the outer IPv4
  header (\<open>jmirror_options_frame\<close>, header length 24), the callback finds the inner header
  at offset 40 and records the client 10.0.0.7, which belongs to worker 4 of 4; the
  clause still reads offset 52, where the source address 8.8.8.8 of the inner header
  lies, so it fails for worker 4 and holds for worker 1. The comment in
  \<^verbatim>\<open>build_pcap_filter\<close> says so: "doing offset from ip, so ip options will break view into
  encap". The same happens to a frame without the encapsulation the filter was built for:
  for \<open>example_frame\<close> the callback records 10.0.0.7 and the clause of a J-Mirror filter
  reads four bytes of the DNS message at offset 52. And for the worker count \<open>2 ^ 31\<close> no
  shard clause is emitted: workers 1 and 2 install the same filter.
\<close>

theorem C9_shard_key_counterexample:
  "dcap_client_ip example_cfg 113 (frame_mem jmirror_options_frame) = Some 0x0a000007
   \<and> dcap_cb_encap_offset example_cfg 113 (frame_mem jmirror_options_frame) = Some 8
   \<and> ip_hl (frame_mem jmirror_options_frame) 0 = 6
   \<and> uint (0x0a000007 :: 32 word) mod uint (4 :: 32 word) = uint (4 :: 32 word) - 1
   \<and> main_filter 8 4 4 False =
        Or (And (dns_resp_filter 36 False) (multi_proc_clause 52 4 4))
           (And (Proto ''vlan'') (And (dns_resp_filter 36 False) (multi_proc_clause 52 4 4)))
   \<and> \<not> clause_holds (frame_mem jmirror_options_frame) (multi_proc_clause 52 4 4)
   \<and> main_filter 8 1 4 False =
        Or (And (dns_resp_filter 36 False) (multi_proc_clause 52 1 4))
           (And (Proto ''vlan'') (And (dns_resp_filter 36 False) (multi_proc_clause 52 1 4)))
   \<and> clause_holds (frame_mem jmirror_options_frame) (multi_proc_clause 52 1 4)
   \<and> dcap_client_ip example_cfg 73 (frame_mem example_frame) = Some 0x0a000007
   \<and> dcap_cb_encap_offset example_cfg 73 (frame_mem example_frame) = Some 0
   \<and> \<not> clause_holds (frame_mem example_frame) (multi_proc_clause 52 4 4)
   \<and> clause_holds (frame_mem example_frame) (multi_proc_clause 52 1 4)
   \<and> main_filter 0 1 0x80000000 False =
        Or (dns_resp_filter 0 False) (And (Proto ''vlan'') (dns_resp_filter 0 False))
   \<and> main_filter 0 2 0x80000000 False =
        Or (dns_resp_filter 0 False) (And (Proto ''vlan'') (dns_resp_filter 0 False))"
proof -
  have d4: "\<not> clause_holds (frame_mem example_frame) (multi_proc_clause 52 4 4)"
    by (simp add: multi_proc_clause_def ex_at_52 word_sub_div_mult)
  have d1: "clause_holds (frame_mem example_frame) (multi_proc_clause 52 1 4)"
    by (simp add: multi_proc_clause_def ex_at_52 word_sub_div_mult)
  have a: "uint (0x0a000007 :: 32 word) mod uint (4 :: 32 word) = uint (4 :: 32 word) - 1"
    by simp
  have m4: "main_filter 8 4 4 False =
        Or (And (dns_resp_filter 36 False) (multi_proc_clause 52 4 4))
           (And (Proto ''vlan'') (And (dns_resp_filter 36 False) (multi_proc_clause 52 4 4)))"
    using main_filter_8_4[of 4] by simp
  have m1: "main_filter 8 1 4 False =
        Or (And (dns_resp_filter 36 False) (multi_proc_clause 52 1 4))
           (And (Proto ''vlan'') (And (dns_resp_filter 36 False) (multi_proc_clause 52 1 4)))"
    using main_filter_8_4[of 1] by simp
  have c4: "\<not> clause_holds (frame_mem jmirror_options_frame) (multi_proc_clause 52 4 4)"
    by (simp add: multi_proc_clause_def jmo_at_52 word_sub_div_mult)
  have c1: "clause_holds (frame_mem jmirror_options_frame) (multi_proc_clause 52 1 4)"
    by (simp add: multi_proc_clause_def jmo_at_52 word_sub_div_mult)
  have b1: "main_filter 0 1 0x80000000 False =
        Or (dns_resp_filter 0 False) (And (Proto ''vlan'') (dns_resp_filter 0 False))"
    by (simp add: main_filter_def build_pcap_filter_def filter_udp_offset_def Let_def)
  have b2: "main_filter 0 2 0x80000000 False =
        Or (dns_resp_filter 0 False) (And (Proto ''vlan'') (dns_resp_filter 0 False))"
    by (simp add: main_filter_def build_pcap_filter_def filter_udp_offset_def Let_def)
  from jmo_client jmo_encap jmo_hl a m4 c4 m1 c1 ex_client ex_encap d4 d1 b1 b2
  show ?thesis by (intro conjI)
qed

end
